theory Spec2Isabelle
  imports Complex_Main "HOL-Library.Word"
begin

section \<open>Python float arithmetic\<close>

text \<open>
  Python floats are IEEE-754 binary64 values. A float is modelled as the rational it
  denotes, and every float operation as the exact operation followed by \<open>dbl\<close>,
  rounding to the nearest value with a 53-bit significand, ties to even. Overflow,
  subnormals and NaN are not modelled: all quantities of the program are far inside
  the normal range.
\<close>

fun blen :: "nat \<Rightarrow> nat" where
  "blen n = (if n = 0 then 0 else Suc (blen (n div 2)))"

declare blen.simps [simp del]

definition ilog2 :: "rat \<Rightarrow> int" where
  \<comment> \<open>\<open>\<lfloor>log\<^sub>2 x\<rfloor>\<close> for \<open>x > 0\<close>\<close>
  "ilog2 x = (if 1 \<le> x then int (blen (nat \<lfloor>x\<rfloor>)) - 1
              else - int (blen (nat (\<lceil>1 / x\<rceil> - 1))))"

definition scale2 :: "rat \<Rightarrow> int \<Rightarrow> rat" where
  "scale2 x e = (if 0 \<le> e then x * 2 ^ nat e else x / 2 ^ nat (- e))"

definition round_half_even :: "rat \<Rightarrow> int" where
  "round_half_even x = (let m = \<lfloor>x\<rfloor>; r = x - of_int m in
     if r < 1 / 2 then m else if 1 / 2 < r then m + 1
     else if even m then m else m + 1)"

definition dbl :: "rat \<Rightarrow> rat" where
  "dbl x = (if x = 0 then 0 else
     (let e = ilog2 \<bar>x\<bar> - 52;
          m = round_half_even (scale2 \<bar>x\<bar> (- e))
      in sgn x * scale2 (of_int m) e))"

definition fdiv :: "rat \<Rightarrow> rat \<Rightarrow> rat" where
  \<comment> \<open>\<open>a / b\<close> on floats, and on ints (true division is correctly rounded); \<open>b \<noteq> 0\<close>\<close>
  "fdiv a b = dbl (a / b)"

definition fmul :: "rat \<Rightarrow> rat \<Rightarrow> rat" where
  "fmul a b = dbl (a * b)"

definition fadd :: "rat \<Rightarrow> rat \<Rightarrow> rat" where
  "fadd a b = dbl (a + b)"

definition fsub :: "rat \<Rightarrow> rat \<Rightarrow> rat" where
  "fsub a b = dbl (a - b)"

definition py_int :: "rat \<Rightarrow> int" where
  \<comment> \<open>\<open>int(x)\<close>: truncation toward zero\<close>
  "py_int x = (if 0 \<le> x then \<lfloor>x\<rfloor> else \<lceil>x\<rceil>)"

datatype error = ValueError | ZeroDivisionError | StructError

section \<open>Hardware constants (SMM/constants.py)\<close>

definition SAMPLE_RATE :: nat where "SAMPLE_RATE = 44100"
definition BAUD_RATE :: nat where "BAUD_RATE = 4800"
definition SAMPLES_PER_BIT :: nat where "SAMPLES_PER_BIT = SAMPLE_RATE div BAUD_RATE"
definition BMC_HALF_A :: nat where "BMC_HALF_A = SAMPLES_PER_BIT div 2"
definition BMC_HALF_B :: nat where "BMC_HALF_B = SAMPLES_PER_BIT - BMC_HALF_A"
definition BMC_HIGH :: int where "BMC_HIGH = 32767"
definition BMC_LOW :: int where "BMC_LOW = - 32768"

section \<open>Line encoder (SGM/bmc_encoder.py)\<close>

text \<open>
  The encoder object holds one field, \<open>_level\<close>. Every method takes the level and
  returns the new one next to its result.
\<close>

definition flip :: "int \<Rightarrow> int" where
  \<comment> \<open>\<open>BMC_HIGH if self._level == BMC_LOW else BMC_LOW\<close>\<close>
  "flip level = (if level = BMC_LOW then BMC_HIGH else BMC_LOW)"

definition encode_bit :: "int \<Rightarrow> int \<Rightarrow> int list \<times> int" where
  "encode_bit level b =
     (let l1 = flip level in
      if b \<noteq> 0 then
        (let first_half = replicate BMC_HALF_A l1;
             l2 = flip l1;
             second_half = replicate BMC_HALF_B l2
         in (first_half @ second_half, l2))
      else (replicate SAMPLES_PER_BIT l1, l1))"

fun encode_bits :: "int \<Rightarrow> int list \<Rightarrow> int list \<times> int" where
  "encode_bits level [] = ([], level)"
| "encode_bits level (b # bs) =
     (let (s, l1) = encode_bit level b;
          (ss, l2) = encode_bits l1 bs
      in (s @ ss, l2))"

definition encode_frame :: "int \<Rightarrow> int list \<Rightarrow> int list \<times> int" where
  "encode_frame level frame_bits = encode_bits level frame_bits"

section \<open>Line decoder (SVM/bmc_decoder.py)\<close>

definition TOLERANCE_FACTOR :: rat where
  \<comment> \<open>the float literal \<open>0.30\<close>\<close>
  "TOLERANCE_FACTOR = dbl (3 / 10)"

datatype DecodedBit = DecodedBit
  (bitv: int) (sample_pos: nat) (run_a: nat) (run_b: "nat option") (in_tolerance: bool)

text \<open>
  The reason of a \<open>BitError\<close> is a formatted string in the source; the model keeps the
  numbers that are formatted into it.
\<close>

datatype reason =
    HalfThenNonHalf nat nat nat
  | OutsideWindows nat int int int int

datatype BitError = BitError (err_sample_pos: nat) (run_length: nat) (reason: reason)

record BMCDecoder =
  sample_rate :: nat
  baud_rate :: nat
  tolerance :: rat
  zero_threshold :: int
  nom_full :: rat
  nom_half :: rat
  full_lo :: int
  full_hi :: int
  half_lo :: int
  half_hi :: int

definition BMCDecoder_init :: "nat \<Rightarrow> nat \<Rightarrow> rat \<Rightarrow> int \<Rightarrow> error + BMCDecoder" where
  "BMCDecoder_init sr baud tol thresh =
     (if baud = 0 then Inl ZeroDivisionError
      else
        (let spb = fdiv (of_nat sr) (of_nat baud);
             nf = spb;
             nh = fdiv spb 2
         in Inr \<lparr> sample_rate = sr, baud_rate = baud, tolerance = tol,
                  zero_threshold = thresh, nom_full = nf, nom_half = nh,
                  full_lo = \<lfloor>fmul nf (fsub 1 tol)\<rfloor>,
                  full_hi = \<lceil>fmul nf (fadd 1 tol)\<rceil>,
                  half_lo = \<lfloor>fmul nh (fsub 1 tol)\<rfloor>,
                  half_hi = \<lceil>fmul nh (fadd 1 tol)\<rceil> \<rparr>))"

definition in_run :: "int \<Rightarrow> bool \<Rightarrow> int \<Rightarrow> bool" where
  \<comment> \<open>the condition of the inner loop of \<open>_run_lengths\<close>\<close>
  "in_run thresh positive s \<longleftrightarrow> ((s > 0) = positive) \<and> \<bar>s\<bar> \<ge> thresh"

text \<open>
  \<open>run_lengths_from thresh i samples\<close> is the outer loop of \<open>_run_lengths\<close> at index
  \<open>i\<close>, with \<open>samples\<close> the samples from \<open>i\<close> on. The inner loop starts at the sample
  that opened the run, which satisfies its condition, so the run is that sample and
  the longest prefix of the rest that satisfies it.
\<close>

function run_lengths_from :: "int \<Rightarrow> nat \<Rightarrow> int list \<Rightarrow> (nat \<times> nat) list" where
  "run_lengths_from thresh i [] = []"
| "run_lengths_from thresh i (s # rest) =
     (if \<bar>s\<bar> < thresh then run_lengths_from thresh (i + 1) rest
      else
        (let positive = (s > 0);
             n = Suc (length (takeWhile (in_run thresh positive) rest))
         in (i, n) # run_lengths_from thresh (i + n)
                       (dropWhile (in_run thresh positive) rest)))"
  by pat_completeness auto
termination
proof (relation "measure (\<lambda>(thresh, i, samples). length samples)")
  show "wf (measure (\<lambda>(thresh :: int, i :: nat, samples :: int list). length samples))"
    by simp
next
  fix thresh :: int and i :: nat and s :: int and rest :: "int list"
  show "((thresh, i + 1, rest), (thresh, i, s # rest))
          \<in> measure (\<lambda>(thresh, i, samples). length samples)"
    by simp
next
  fix thresh :: int and i :: nat and s :: int and rest :: "int list"
    and positive :: bool and n :: nat
  have "length (dropWhile (in_run thresh positive) rest) \<le> length rest"
    by (rule length_dropWhile_le)
  then show "((thresh, i + n, dropWhile (in_run thresh positive) rest), (thresh, i, s # rest))
          \<in> measure (\<lambda>(thresh, i, samples). length samples)"
    by simp
qed

definition run_lengths :: "BMCDecoder \<Rightarrow> int list \<Rightarrow> (nat \<times> nat) list" where
  "run_lengths d samples = run_lengths_from (zero_threshold d) 0 samples"

definition is_full :: "BMCDecoder \<Rightarrow> nat \<Rightarrow> bool" where
  "is_full d r \<longleftrightarrow> full_lo d \<le> int r \<and> int r \<le> full_hi d"

definition is_half :: "BMCDecoder \<Rightarrow> nat \<Rightarrow> bool" where
  "is_half d r \<longleftrightarrow> half_lo d \<le> int r \<and> int r \<le> half_hi d"

definition add_bit :: "DecodedBit \<Rightarrow> DecodedBit list \<times> BitError list
    \<Rightarrow> DecodedBit list \<times> BitError list" where
  "add_bit b res = (b # fst res, snd res)"

definition add_error :: "BitError \<Rightarrow> DecodedBit list \<times> BitError list
    \<Rightarrow> DecodedBit list \<times> BitError list" where
  "add_error e res = (fst res, e # snd res)"

text \<open>
  \<open>consume_runs d runs\<close> is the loop of \<open>_consume_runs\<close> at the runs still to be read;
  what the source appends to \<open>bits\<close> and \<open>errors\<close> before going on is put in front
  of what the rest of the loop returns.
\<close>

fun consume_runs :: "BMCDecoder \<Rightarrow> (nat \<times> nat) list \<Rightarrow> DecodedBit list \<times> BitError list" where
  "consume_runs d [] = ([], [])"
| "consume_runs d ((pos, r) # rest) =
     (if is_full d r then
        add_bit (DecodedBit 0 pos r None True) (consume_runs d rest)
      else if is_half d r then
        (case rest of
           (pos2, r2) # rest2 \<Rightarrow>
             if is_half d r2 then
               add_bit (DecodedBit 1 pos r (Some r2) True) (consume_runs d rest2)
             else
               (let combined = r + r2 in
                if is_full d combined then
                  add_bit (DecodedBit 1 pos r (Some r2) False) (consume_runs d rest2)
                else
                  add_error (BitError pos r (HalfThenNonHalf r r2 combined))
                    (consume_runs d rest))
         | [] \<Rightarrow> add_bit (DecodedBit 1 pos r None False) ([], []))
      else
        add_error
          (BitError pos r (OutsideWindows r (full_lo d) (full_hi d) (half_lo d) (half_hi d)))
          (consume_runs d rest))"

definition decode :: "BMCDecoder \<Rightarrow> int list \<Rightarrow> DecodedBit list \<times> BitError list" where
  "decode d samples = consume_runs d (run_lengths d samples)"

definition decoder_default :: BMCDecoder where
  \<comment> \<open>\<open>BMCDecoder()\<close>: 44100 Hz, 4800 baud, tolerance 0.30, zero threshold 200\<close>
  "decoder_default = projr (BMCDecoder_init SAMPLE_RATE BAUD_RATE TOLERANCE_FACTOR 200)"

definition decoder_tol0 :: BMCDecoder where
  \<comment> \<open>\<open>BMCDecoder(tolerance=0)\<close>\<close>
  "decoder_tol0 = projr (BMCDecoder_init SAMPLE_RATE BAUD_RATE 0 200)"

text \<open>Maximal runs of equal consecutive samples, for the phase-continuity property.\<close>

function level_runs :: "int list \<Rightarrow> nat list" where
  "level_runs [] = []"
| "level_runs (x # xs) =
     Suc (length (takeWhile (\<lambda>y. y = x) xs)) # level_runs (dropWhile (\<lambda>y. y = x) xs)"
  by pat_completeness auto
termination
proof (relation "measure length")
  show "wf (measure (length :: int list \<Rightarrow> nat))"
    by simp
next
  fix x :: int and xs :: "int list"
  have "length (dropWhile (\<lambda>y. y = x) xs) \<le> length xs"
    by (rule length_dropWhile_le)
  then show "(dropWhile (\<lambda>y. y = x) xs, x # xs) \<in> measure length"
    by simp
qed

text \<open>The number of runs a decoded bit was read from.\<close>

definition runs_used :: "DecodedBit \<Rightarrow> nat" where
  "runs_used b = (case run_b b of None \<Rightarrow> 1 | Some r2 \<Rightarrow> 2)"

section \<open>Channel maps (SMM/constants.py)\<close>

datatype track = TD | BD

text \<open>
  A track is given to the program as the string \<open>"TD"\<close> or \<open>"BD"\<close>; any other string
  raises \<open>ValueError\<close> before anything else is done, and is not a value of \<open>track\<close>.
  The dictionaries keep their insertion order as association lists; no key and no bit
  number occurs twice.
\<close>

definition TD_CHANNELS :: "(string \<times> nat) list" where
  "TD_CHANNELS =
    [(''rolfe_mouth'', 1), (''rolfe_left_eyelid'', 2), (''rolfe_right_eyelid'', 3),
    (''rolfe_eyes_left'', 4), (''rolfe_eyes_right'', 5), (''rolfe_head_left'', 6),
    (''rolfe_head_right'', 7), (''rolfe_head_up'', 8), (''rolfe_left_ear'', 9),
    (''rolfe_right_ear'', 10), (''rolfe_left_arm_raise'', 11),
    (''rolfe_left_arm_twist'', 12), (''rolfe_left_elbow'', 13),
    (''rolfe_body_twist_left'', 14), (''rolfe_body_twist_right'', 15),
    (''rolfe_body_lean'', 16), (''rolfe_right_arm_raise'', 17),
    (''rolfe_right_arm_twist'', 18), (''rolfe_right_elbow_twist'', 19),
    (''rolfe_earl_head_tilt'', 20), (''duke_head_right'', 21), (''duke_head_up'', 22),
    (''duke_left_ear'', 23), (''duke_right_ear'', 24), (''duke_head_left'', 25),
    (''duke_left_eyelid'', 26), (''duke_right_eyelid'', 27), (''duke_eyes_left'', 28),
    (''duke_eyes_right'', 29), (''duke_mouth'', 30), (''duke_right_elbow'', 31),
    (''duke_left_foot_hihat'', 32), (''duke_left_arm_swing'', 33),
    (''duke_right_arm_swing'', 34), (''duke_left_elbow'', 35), (''earl_mouth'', 36),
    (''earl_eyebrow'', 37), (''props_sun_mouth'', 38), (''props_sun_raise'', 39),
    (''specials_dual_pressure_td'', 40), (''fats_left_eyelid'', 41),
    (''fats_right_eyelid'', 42), (''fats_eyes_left'', 43), (''fats_eyes_right'', 44),
    (''fats_mouth'', 45), (''props_moon_mouth'', 46), (''props_moon_raise'', 47),
    (''props_looney_bird_hands'', 48), (''props_antioch_down'', 49),
    (''props_baby_bear_raise'', 50), (''fats_head_tip_left'', 51),
    (''fats_head_tip_right'', 52), (''fats_head_up'', 53), (''fats_head_left'', 54),
    (''fats_head_right'', 55), (''fats_left_arm_swing'', 57),
    (''fats_right_arm_swing'', 58), (''fats_left_elbow'', 59), (''fats_right_elbow'', 60),
    (''fats_foot_tap'', 61), (''fats_body_lean'', 62), (''duke_right_foot_bass_drum'', 63),
    (''duke_body_lean'', 64), (''organ_top_blue'', 66), (''organ_top_red'', 67),
    (''organ_top_amber'', 68), (''organ_top_green'', 69), (''organ_leg_top'', 71),
    (''organ_leg_mid'', 72), (''organ_leg_bottom'', 73), (''organ_cont_strobe'', 74),
    (''organ_flash_strobe'', 75), (''sign_inner'', 76), (''sign_mid'', 77),
    (''sign_outer'', 78), (''sign_cont_strobe'', 79), (''sign_flash_strobe'', 80),
    (''spot_mitzi'', 81), (''spot_beach_bear'', 82), (''spot_looney_bird'', 83),
    (''spot_billy_bob'', 84), (''spot_fats'', 85), (''spot_duke'', 86),
    (''spot_rolfe'', 87), (''spot_earl'', 88), (''curtain_stage_right_open'', 89),
    (''curtain_stage_right_close'', 90), (''curtain_center_stage_open'', 91),
    (''curtain_center_stage_close'', 92), (''curtain_stage_left_open'', 93),
    (''curtain_stage_left_close'', 94)]"

definition BD_CHANNELS :: "(string \<times> nat) list" where
  "BD_CHANNELS =
    [(''beachbear_left_eyelid'', 1), (''beachbear_right_eyelid'', 2),
    (''beachbear_eye_cross'', 3), (''beachbear_left_hand_slide'', 4),
    (''beachbear_guitar_raise'', 5), (''beachbear_head_left'', 6),
    (''beachbear_head_right'', 7), (''beachbear_head_up'', 8),
    (''beachbear_left_leg_kick'', 9), (''beachbear_right_leg_kick'', 10),
    (''beachbear_right_arm_raise'', 11), (''beachbear_right_arm_twist'', 12),
    (''beachbear_right_elbow_twist'', 13), (''beachbear_right_wrist'', 14),
    (''beachbear_body_lean'', 15), (''beachbear_mouth'', 16), (''looneybird_mouth'', 17),
    (''mitzi_right_arm_raise'', 18), (''mitzi_right_elbow'', 19),
    (''mitzi_right_arm_twist'', 20), (''looneybird_head_right'', 21),
    (''looneybird_raise'', 22), (''mitzi_left_arm_raise'', 23), (''mitzi_left_elbow'', 24),
    (''mitzi_left_arm_twist'', 25), (''mitzi_left_ear'', 26), (''mitzi_right_ear'', 27),
    (''mitzi_head_left'', 28), (''mitzi_head_right'', 29), (''mitzi_head_up'', 30),
    (''mitzi_left_eyelid'', 31), (''mitzi_right_eyelid'', 32), (''mitzi_eyes_left'', 33),
    (''mitzi_eyes_right'', 34), (''mitzi_mouth'', 35), (''mitzi_body_twist_left'', 36),
    (''mitzi_body_twist_right'', 37), (''mitzi_body_lean'', 38),
    (''billybob_left_arm_slide'', 39), (''billybob_guitar_raise'', 40),
    (''looneybird_left_eyelid'', 41), (''looneybird_right_eyelid'', 42),
    (''looneybird_eye_cross'', 43), (''billybob_foot_tap'', 44), (''billybob_mouth'', 46),
    (''billybob_left_eyelid'', 47), (''billybob_right_eyelid'', 48),
    (''billybob_eyes_left'', 49), (''billybob_eyes_right'', 50),
    (''billybob_head_left'', 51), (''billybob_head_right'', 52),
    (''billybob_head_tip_left'', 53), (''billybob_head_tip_right'', 54),
    (''billybob_head_up'', 55), (''billybob_right_arm_raise'', 56),
    (''billybob_right_arm_twist'', 57), (''billybob_right_elbow_twist'', 58),
    (''billybob_right_wrist'', 59), (''specials_dual_pressure_bd'', 60),
    (''billybob_body_twist_left'', 61), (''billybob_body_twist_right'', 62),
    (''billybob_body_lean'', 63), (''specials_tape_stop'', 64),
    (''specials_tape_rewind'', 65), (''flood_stage_right_blue'', 66),
    (''flood_stage_right_green'', 67), (''flood_stage_right_amber'', 68),
    (''flood_stage_right_red'', 69), (''prop_light_applause'', 70),
    (''flood_center_stage_blue'', 71), (''flood_center_stage_green'', 72),
    (''flood_center_stage_amber'', 73), (''flood_center_stage_red'', 74),
    (''prop_light_drums'', 75), (''flood_stage_left_blue'', 76),
    (''flood_stage_left_green'', 77), (''flood_stage_left_amber'', 78),
    (''flood_stage_left_red'', 79), (''prop_light_fire_still'', 80),
    (''flood_backdrop_outside_blue'', 81), (''flood_backdrop_inside_amber'', 82),
    (''flood_treeline_blue'', 83), (''flood_backdrop_inside_blue'', 84),
    (''flood_treeline_red'', 85), (''flood_bushes_green'', 86),
    (''flood_bushes_red_amber'', 87), (''spot_sun'', 88), (''spot_moon'', 89),
    (''spot_spider'', 90), (''prop_light_gas_pump'', 91),
    (''stage_light_service_stn_red'', 92), (''stage_light_service_stn_blue'', 93),
    (''stage_light_rainbow_1_red'', 94), (''stage_light_rainbow_2_yellow'', 95),
    (''spot_guitar'', 96)]"

definition TD_BLANK_BITS :: "nat set" where "TD_BLANK_BITS = {56, 65, 70}"
definition TD_FRAME_BITS :: nat where "TD_FRAME_BITS = 94"
definition BD_BLANK_BITS :: "nat set" where "BD_BLANK_BITS = {45}"
definition BD_FRAME_BITS :: nat where "BD_FRAME_BITS = 96"

definition TD_BIT_TO_NAME :: "(nat \<times> string) list" where
  "TD_BIT_TO_NAME = map (\<lambda>(k, v). (v, k)) TD_CHANNELS"

definition BD_BIT_TO_NAME :: "(nat \<times> string) list" where
  "BD_BIT_TO_NAME = map (\<lambda>(k, v). (v, k)) BD_CHANNELS"

definition channel_map :: "track \<Rightarrow> (string \<times> nat) list" where
  "channel_map t = (case t of TD \<Rightarrow> TD_CHANNELS | BD \<Rightarrow> BD_CHANNELS)"

definition blank_bits :: "track \<Rightarrow> nat set" where
  "blank_bits t = (case t of TD \<Rightarrow> TD_BLANK_BITS | BD \<Rightarrow> BD_BLANK_BITS)"

definition frame_bits :: "track \<Rightarrow> nat" where
  "frame_bits t = (case t of TD \<Rightarrow> TD_FRAME_BITS | BD \<Rightarrow> BD_FRAME_BITS)"

definition bit_to_name :: "track \<Rightarrow> (nat \<times> string) list" where
  "bit_to_name t = (case t of TD \<Rightarrow> TD_BIT_TO_NAME | BD \<Rightarrow> BD_BIT_TO_NAME)"

section \<open>Frame scheduler (SGM/frame_builder.py)\<close>

definition TD_FRAME_SAMPLES :: nat where "TD_FRAME_SAMPLES = TD_FRAME_BITS * SAMPLES_PER_BIT"
definition BD_FRAME_SAMPLES :: nat where "BD_FRAME_SAMPLES = BD_FRAME_BITS * SAMPLES_PER_BIT"

definition frame_samps :: "track \<Rightarrow> nat" where
  "frame_samps t = (case t of TD \<Rightarrow> TD_FRAME_SAMPLES | BD \<Rightarrow> BD_FRAME_SAMPLES)"

text \<open>
  An event is the dictionary \<open>{"time", "channel", "active"}\<close>. The program reads the
  time only through \<open>int(event["time"] * SAMPLE_RATE)\<close>, the integer sample anchor,
  which is the field \<open>ev_sample\<close> here; times are not negative. In the same way the
  duration enters as \<open>int(duration_seconds * SAMPLE_RATE)\<close>.
\<close>

record ChannelEvent =
  ev_sample :: nat
  channel :: string
  active :: bool

type_synonym byte = "8 word"

definition pack_h :: "int \<Rightarrow> byte list" where
  \<comment> \<open>\<open>struct.pack("<h", s)\<close>: two's complement, low byte first\<close>
  "pack_h s = [word_of_int s, word_of_int (s div 256)]"

definition pcm_bytes :: "int list \<Rightarrow> byte list" where
  "pcm_bytes samples = concat (map pack_h samples)"

definition to_raw_bytes :: "int list \<Rightarrow> error + byte list" where
  \<comment> \<open>\<open>struct.pack\<close> raises \<open>struct.error\<close> on a value outside the int16 range\<close>
  "to_raw_bytes samples =
     (if \<forall>s \<in> set samples. - 32768 \<le> s \<and> s \<le> 32767
      then Inr (pcm_bytes samples) else Inl StructError)"

definition slice_assign :: "'a list \<Rightarrow> nat \<Rightarrow> nat \<Rightarrow> 'a list \<Rightarrow> 'a list" where
  \<comment> \<open>\<open>output[s:e] = data\<close> on a bytearray: the bounds are clipped to the length, the
      slice is replaced by the data, and a slice at the end appends\<close>
  "slice_assign out s e data =
     (let lo = min s (length out);
          hi = max lo (min e (length out))
      in take lo out @ data @ drop hi out)"

definition set_channel :: "track \<Rightarrow> int list \<Rightarrow> string \<Rightarrow> bool \<Rightarrow> error + int list" where
  "set_channel t frame ch act =
     (case map_of (channel_map t) ch of
        None \<Rightarrow> Inl ValueError
      | Some bit_number \<Rightarrow>
          (let bit_index = bit_number - 1 in
           if bit_number \<in> blank_bits t then Inl ValueError
           else Inr (frame[bit_index := (if act then 1 else 0)])))"

definition clear_all :: "track \<Rightarrow> int list" where
  "clear_all t = replicate (frame_bits t) 0"

text \<open>
  The state of a build besides the frame: the output bytearray, the level of the
  encoder \<open>enc\<close>, and (not in the source) the list of the frames handed to
  \<open>enc.encode_frame\<close> so far, which is what a property of "every emitted frame" is
  about.
\<close>

record build_state =
  out_buf :: "byte list"
  enc_level :: int
  encoded :: "int list list"

function fill_loop :: "track \<Rightarrow> int list \<Rightarrow> nat \<Rightarrow> build_state \<Rightarrow> nat \<Rightarrow> error + build_state" where
  "fill_loop t frame end_sample st pos =
     (if pos < end_sample then
        (let (frame_pcm, lvl) = encode_frame (enc_level st) frame in
         case to_raw_bytes frame_pcm of
           Inl e \<Rightarrow> Inl e
         | Inr frame_pcm_bytes \<Rightarrow>
             (let samples_remaining = end_sample - pos;
                  samples_to_write = min (frame_samps t) samples_remaining;
                  byte_start = pos * 2;
                  byte_end = byte_start + samples_to_write * 2;
                  out = slice_assign (out_buf st) byte_start byte_end
                          (take (samples_to_write * 2) frame_pcm_bytes)
              in fill_loop t frame end_sample
                   \<lparr> out_buf = out, enc_level = lvl, encoded = encoded st @ [frame] \<rparr>
                   (pos + samples_to_write)))
      else Inr st)"
  by pat_completeness auto
termination
proof (relation "measure (\<lambda>(t, frame, end_sample, st, pos). end_sample - pos)")
  show "wf (measure (\<lambda>(t :: track, frame :: int list, end_sample :: nat,
                        st :: build_state, pos :: nat). end_sample - pos))"
    by simp
next
  fix t :: track and frame :: "int list" and end_sample :: nat and st :: build_state
    and pos :: nat and samples_to_write :: nat and out :: "byte list" and lvl :: int
    and samples_remaining :: nat
  assume lt: "pos < end_sample"
    and r: "samples_remaining = end_sample - pos"
    and w: "samples_to_write = min (frame_samps t) samples_remaining"
  have "0 < frame_samps t"
    by (cases t)
       (simp_all add: frame_samps_def TD_FRAME_SAMPLES_def BD_FRAME_SAMPLES_def
          TD_FRAME_BITS_def BD_FRAME_BITS_def SAMPLES_PER_BIT_def SAMPLE_RATE_def
          BAUD_RATE_def)
  then have "0 < samples_to_write"
    using lt r w by simp
  then show "((t, frame, end_sample,
               \<lparr> out_buf = out, enc_level = lvl, encoded = encoded st @ [frame] \<rparr>,
               pos + samples_to_write),
              (t, frame, end_sample, st, pos))
          \<in> measure (\<lambda>(t, frame, end_sample, st, pos). end_sample - pos)"
    using lt by simp
qed

declare fill_loop.simps [simp del]

definition fill_frames :: "track \<Rightarrow> int list \<Rightarrow> build_state \<Rightarrow> nat \<Rightarrow> nat \<Rightarrow> error + build_state" where
  "fill_frames t frame st start_sample end_sample =
     (if start_sample \<ge> end_sample then Inr st
      else fill_loop t frame end_sample st start_sample)"

definition total_samples :: "track \<Rightarrow> nat \<Rightarrow> nat" where
  \<comment> \<open>the duration in samples, rounded up to a whole number of frames\<close>
  "total_samples t n =
     (let remainder = n mod frame_samps t in
      if remainder \<noteq> 0 then n + (frame_samps t - remainder) else n)"

text \<open>
  The loop over the sorted events of \<open>FrameBuilder.build\<close>, at the frame, the build state
  and the write cursor.
\<close>

fun build_events :: "track \<Rightarrow> ChannelEvent list \<Rightarrow> int list \<Rightarrow> build_state \<Rightarrow> nat
    \<Rightarrow> error + (int list \<times> build_state \<times> nat)" where
  "build_events t [] frame st write_cursor = Inr (frame, st, write_cursor)"
| "build_events t (event # events) frame st write_cursor =
     (let event_sample = ev_sample event in
      case fill_frames t frame st write_cursor event_sample of
        Inl e \<Rightarrow> Inl e
      | Inr st1 \<Rightarrow>
          (case set_channel t frame (channel event) (active event) of
             Inl e \<Rightarrow> Inl e
           | Inr frame1 \<Rightarrow> build_events t events frame1 st1 event_sample))"

definition build_run :: "track \<Rightarrow> ChannelEvent list \<Rightarrow> nat \<Rightarrow> error + build_state" where
  "build_run t events n =
     (let frame = clear_all t;
          total = total_samples t n;
          st = \<lparr> out_buf = replicate (total * 2) 0, enc_level = BMC_LOW, encoded = [] \<rparr>;
          sorted_events = sort_key ev_sample events
      in case build_events t sorted_events frame st 0 of
           Inl e \<Rightarrow> Inl e
         | Inr (frame1, st1, write_cursor) \<Rightarrow> fill_frames t frame1 st1 write_cursor total)"

definition build :: "track \<Rightarrow> ChannelEvent list \<Rightarrow> nat \<Rightarrow> error + byte list" where
  \<comment> \<open>\<open>FrameBuilder(track).build(events, duration_seconds)\<close>\<close>
  "build t events n = map_sum id out_buf (build_run t events n)"

section \<open>Frame scheduler of the export bridge (SGM/export_bridge.py)\<close>

text \<open>
  The file inlines its own copies of the constants, the channel maps, the encoder and
  \<open>set_channel\<close>. The copies of the channel maps and of \<open>set_channel\<close> are the same text
  as above and are not repeated; the encoder is, with its literal constants.
\<close>

definition xb_encode_bit :: "int \<Rightarrow> int \<Rightarrow> int list \<times> int" where
  "xb_encode_bit level b =
     (let l1 = (if level = - 32768 then 32767 else - 32768) in
      if b \<noteq> 0 then
        (let first = replicate 4 l1;
             l2 = (if l1 = - 32768 then 32767 else - 32768);
             second = replicate 5 l2
         in (first @ second, l2))
      else (replicate 9 l1, l1))"

fun xb_encode_frame :: "int \<Rightarrow> int list \<Rightarrow> int list \<times> int" where
  "xb_encode_frame level [] = ([], level)"
| "xb_encode_frame level (b # bs) =
     (let (s, l1) = xb_encode_bit level b;
          (ss, l2) = xb_encode_frame l1 bs
      in (s @ ss, l2))"

definition xb_frame_samps :: "track \<Rightarrow> nat" where
  "xb_frame_samps t = frame_bits t * 9"

function xb_fill_loop :: "track \<Rightarrow> int list \<Rightarrow> nat \<Rightarrow> build_state \<Rightarrow> nat \<Rightarrow> error + build_state" where
  "xb_fill_loop t frame end_sample st pos =
     (if pos < end_sample then
        (let (frame_pcm, lvl) = xb_encode_frame (enc_level st) frame in
         case to_raw_bytes frame_pcm of
           Inl e \<Rightarrow> Inl e
         | Inr frame_bytes \<Rightarrow>
             (let can_write = min (xb_frame_samps t) (end_sample - pos);
                  byte_s = pos * 2;
                  byte_e = byte_s + can_write * 2;
                  out = slice_assign (out_buf st) byte_s byte_e (take (can_write * 2) frame_bytes)
              in xb_fill_loop t frame end_sample
                   \<lparr> out_buf = out, enc_level = lvl, encoded = encoded st @ [frame] \<rparr>
                   (pos + can_write)))
      else Inr st)"
  by pat_completeness auto
termination
proof (relation "measure (\<lambda>(t, frame, end_sample, st, pos). end_sample - pos)")
  show "wf (measure (\<lambda>(t :: track, frame :: int list, end_sample :: nat,
                        st :: build_state, pos :: nat). end_sample - pos))"
    by simp
next
  fix t :: track and frame :: "int list" and end_sample :: nat and st :: build_state
    and pos :: nat and can_write :: nat and out :: "byte list" and lvl :: int
  assume lt: "pos < end_sample"
    and w: "can_write = min (xb_frame_samps t) (end_sample - pos)"
  have "0 < xb_frame_samps t"
    by (cases t)
       (simp_all add: xb_frame_samps_def frame_bits_def TD_FRAME_BITS_def BD_FRAME_BITS_def)
  then have "0 < can_write"
    using lt w by simp
  then show "((t, frame, end_sample,
               \<lparr> out_buf = out, enc_level = lvl, encoded = encoded st @ [frame] \<rparr>,
               pos + can_write),
              (t, frame, end_sample, st, pos))
          \<in> measure (\<lambda>(t, frame, end_sample, st, pos). end_sample - pos)"
    using lt by simp
qed

declare xb_fill_loop.simps [simp del]

definition xb_fill :: "track \<Rightarrow> int list \<Rightarrow> build_state \<Rightarrow> nat \<Rightarrow> nat \<Rightarrow> error + build_state" where
  "xb_fill t frame st start end_sample =
     (if start \<ge> end_sample then Inr st
      else xb_fill_loop t frame end_sample st start)"

fun xb_build_events :: "track \<Rightarrow> ChannelEvent list \<Rightarrow> int list \<Rightarrow> build_state \<Rightarrow> nat
    \<Rightarrow> error + (int list \<times> build_state \<times> nat)" where
  "xb_build_events t [] frame st cursor = Inr (frame, st, cursor)"
| "xb_build_events t (ev # evs) frame st cursor =
     (let ev_sample0 = ev_sample ev;
          ev_sample1 = (ev_sample0 div xb_frame_samps t) * xb_frame_samps t
      in if ev_sample1 \<le> cursor then
           (case set_channel t frame (channel ev) (active ev) of
              Inl e \<Rightarrow> Inl e
            | Inr frame1 \<Rightarrow> xb_build_events t evs frame1 st cursor)
         else
           (case xb_fill t frame st cursor ev_sample1 of
              Inl e \<Rightarrow> Inl e
            | Inr st1 \<Rightarrow>
                (case set_channel t frame (channel ev) (active ev) of
                   Inl e \<Rightarrow> Inl e
                 | Inr frame1 \<Rightarrow> xb_build_events t evs frame1 st1 ev_sample1)))"

definition xb_total_samples :: "track \<Rightarrow> nat \<Rightarrow> nat" where
  "xb_total_samples t n =
     (let remainder = n mod xb_frame_samps t in
      if remainder \<noteq> 0 then n + (xb_frame_samps t - remainder) else n)"

definition xb_build_run :: "track \<Rightarrow> ChannelEvent list \<Rightarrow> nat \<Rightarrow> error + build_state" where
  "xb_build_run t events n =
     (let frame = clear_all t;
          total = xb_total_samples t n;
          st = \<lparr> out_buf = replicate (total * 2) 0, enc_level = - 32768, encoded = [] \<rparr>;
          sorted_ev = sort_key ev_sample events
      in case xb_build_events t sorted_ev frame st 0 of
           Inl e \<Rightarrow> Inl e
         | Inr (frame1, st1, cursor) \<Rightarrow> xb_fill t frame1 st1 cursor total)"

definition xb_build :: "track \<Rightarrow> ChannelEvent list \<Rightarrow> nat \<Rightarrow> error + byte list" where
  \<comment> \<open>\<open>_FrameBuilder(track).build(events, duration_seconds)\<close>\<close>
  "xb_build t events n = map_sum id out_buf (xb_build_run t events n)"

text \<open>
  An event in the middle of the first frame: \<open>rolfe_mouth\<close> on at 0.01 seconds, sample
  \<open>int(0.01 * 44100) = 441\<close>. It is built below for a duration of 0.02 seconds,
  \<open>int(0.02 * 44100) = 882\<close> samples, which is rounded up to two TD frames.
\<close>

definition ev_mid_frame :: ChannelEvent where
  "ev_mid_frame = \<lparr> ev_sample = 441, channel = ''rolfe_mouth'', active = True \<rparr>"

definition frame_mouth :: "int list" where
  \<comment> \<open>the TD frame with only \<open>rolfe_mouth\<close> (bit 1) set\<close>
  "frame_mouth = 1 # replicate 93 0"

text \<open>
  An event in mid-frame that falls on a bit boundary: \<open>rolfe_head_left\<close> on at 0.010205
  seconds, sample \<open>int(0.010205 * 44100) = 450 = 50 * 9\<close>.
\<close>

definition ev_head_left :: ChannelEvent where
  "ev_head_left = \<lparr> ev_sample = 450, channel = ''rolfe_head_left'', active = True \<rparr>"

definition frame_head_left :: "int list" where
  \<comment> \<open>the TD frame with only \<open>rolfe_head_left\<close> (bit 6) set\<close>
  "frame_head_left = (replicate 94 0)[5 := 1]"

section \<open>Frame synchroniser (SVM/frame_sync.py)\<close>

datatype DecodedFrame = DecodedFrame
  (frame_index: nat) (bit_offset: nat) (frame_bits_read: "int list")
  (active_channels: "string list") (blank_ok: bool)

record SyncResult =
  locked :: bool
  lock_offset :: nat
  score :: nat
  frames :: "DecodedFrame list"
  orphan_bits :: nat

definition LOCK_THRESHOLD :: nat where "LOCK_THRESHOLD = 3"

definition blank_indices :: "track \<Rightarrow> nat set" where
  \<comment> \<open>\<open>{b - 1 for b in blank_bits}\<close>\<close>
  "blank_indices t = (\<lambda>b. b - 1) ` blank_bits t"

definition py_slice :: "'a list \<Rightarrow> nat \<Rightarrow> nat \<Rightarrow> 'a list" where
  \<comment> \<open>\<open>xs[s:e]\<close> for \<open>0 \<le> s \<le> e\<close>\<close>
  "py_slice xs s e = take (e - s) (drop s xs)"

definition blanks_clear :: "track \<Rightarrow> int list \<Rightarrow> bool" where
  \<comment> \<open>\<open>all(frame_slice[bi] == 0 for bi in blank_indices)\<close>, on a slice of a whole frame\<close>
  "blanks_clear t frame_slice \<longleftrightarrow> (\<forall>bi \<in> blank_indices t. frame_slice ! bi = 0)"

text \<open>The inner loop of the lock search, over the values of \<open>k\<close> still to be tried.\<close>

fun score_loop :: "track \<Rightarrow> int list \<Rightarrow> nat \<Rightarrow> nat list \<Rightarrow> nat \<Rightarrow> nat" where
  "score_loop t bs candidate [] sc = sc"
| "score_loop t bs candidate (k # ks) sc =
     (let start = candidate + k * frame_bits t;
          end_pos = start + frame_bits t
      in if end_pos > length bs then sc
         else if blanks_clear t (py_slice bs start end_pos)
              then score_loop t bs candidate ks (sc + 1)
              else sc)"

text \<open>
  The outer loop of the lock search, over the candidates still to be tried, at the best
  offset and score seen so far.
\<close>

fun search_loop :: "track \<Rightarrow> int list \<Rightarrow> nat list \<Rightarrow> nat \<times> nat \<Rightarrow> nat \<times> nat" where
  "search_loop t bs [] best = best"
| "search_loop t bs (candidate # cs) (best_offset, best_score) =
     (let sc = score_loop t bs candidate [0..<LOCK_THRESHOLD] 0 in
      if sc > best_score then
        (if sc \<ge> LOCK_THRESHOLD then (candidate, sc)
         else search_loop t bs cs (candidate, sc))
      else search_loop t bs cs (best_offset, best_score))"

definition active_names :: "track \<Rightarrow> int list \<Rightarrow> string list" where
  "active_names t frame_slice =
     concat (map (\<lambda>(i, v).
               if v = 1 then (case map_of (bit_to_name t) (i + 1) of
                                Some name \<Rightarrow> [name] | None \<Rightarrow> [])
               else [])
             (enumerate 0 frame_slice))"

function extract_frames :: "track \<Rightarrow> int list \<Rightarrow> nat \<Rightarrow> DecodedFrame list \<Rightarrow> DecodedFrame list" where
  "extract_frames t bs pos fs =
     (if pos + frame_bits t \<le> length bs then
        (let frame_slice = py_slice bs pos (pos + frame_bits t);
             ok = blanks_clear t frame_slice;
             act = active_names t frame_slice
         in extract_frames t bs (pos + frame_bits t)
              (fs @ [DecodedFrame (length fs) pos frame_slice act ok]))
      else fs)"
  by pat_completeness auto
termination
proof (relation "measure (\<lambda>(t, bs, pos, fs). length bs - pos)")
  show "wf (measure (\<lambda>(t :: track, bs :: int list, pos :: nat, fs :: DecodedFrame list).
                        length bs - pos))"
    by simp
next
  fix t :: track and bs :: "int list" and pos :: nat and fs :: "DecodedFrame list"
    and frame_slice :: "int list" and ok :: bool and act :: "string list"
  assume le: "pos + frame_bits t \<le> length bs"
  have "0 < frame_bits t"
    by (cases t) (simp_all add: frame_bits_def TD_FRAME_BITS_def BD_FRAME_BITS_def)
  then show "((t, bs, pos + frame_bits t,
               fs @ [DecodedFrame (length fs) pos frame_slice act ok]),
              (t, bs, pos, fs))
          \<in> measure (\<lambda>(t, bs, pos, fs). length bs - pos)"
    using le by simp
qed

declare extract_frames.simps [simp del]

definition sync_frames :: "int list \<Rightarrow> track \<Rightarrow> nat \<Rightarrow> SyncResult" where
  "sync_frames bs t max_search_bits =
     (let total = length bs;
          search_end = min (int max_search_bits)
                         (int total - int (frame_bits t * LOCK_THRESHOLD));
          (best_offset, best_score) = search_loop t bs [0..<nat search_end] (0, 0);
          lk = (best_score \<ge> LOCK_THRESHOLD);
          fs = extract_frames t bs best_offset []
      in \<lparr> locked = lk, lock_offset = best_offset, score = best_score,
           frames = fs, orphan_bits = best_offset \<rparr>)"

section \<open>Hardware conformance simulator (SVM/hardware_sim.py)\<close>

definition MAX_ERROR_RATE :: rat where "MAX_ERROR_RATE = dbl (2 / 100)"
definition MIN_FRAME_LOCK_SCORE :: nat where "MIN_FRAME_LOCK_SCORE = 3"
definition MIN_BLANK_BIT_RATE :: rat where "MIN_BLANK_BIT_RATE = dbl (98 / 100)"

text \<open>
  The three reason strings, each with the track it names and the rate formatted into it.
\<close>

datatype sim_reason =
    ErrorRateExceeds track rat
  | FailedToLock track
  | BlankIntegrityLow track rat

datatype track_arg = Only track | BOTH

record sim_state =
  verdict_pass :: bool
  reasons :: "sim_reason list"

definition error_rate_of :: "DecodedBit list \<times> BitError list \<Rightarrow> rat" where
  "error_rate_of res =
     (let n_bits = length (fst res); n_errors = length (snd res)
      in fdiv (of_nat n_errors) (of_nat (max (n_bits + n_errors) 1)))"

definition blank_ok_rate_of :: "SyncResult \<Rightarrow> rat" where
  "blank_ok_rate_of sync =
     (let blank_ok_count = length (filter blank_ok (frames sync))
      in fdiv (of_nat blank_ok_count) (of_nat (max (length (frames sync)) 1)))"

text \<open>One round of the loop over the tracks of \<open>run_sim\<close> (the printing left out).\<close>

definition run_track :: "nat \<Rightarrow> rat \<Rightarrow> track \<Rightarrow> int list \<Rightarrow> sim_state \<Rightarrow> error + sim_state" where
  "run_track sr tol trk ch_data st =
     (case BMCDecoder_init sr BAUD_RATE tol 200 of
        Inl e \<Rightarrow> Inl e
      | Inr dec \<Rightarrow>
          (let res = decode dec ch_data;
               error_rate = error_rate_of res;
               st1 = (if error_rate > MAX_ERROR_RATE
                      then \<lparr> verdict_pass = False,
                             reasons = reasons st @ [ErrorRateExceeds trk error_rate] \<rparr>
                      else st);
               bit_vals = map bitv (fst res);
               sync = sync_frames bit_vals trk 500;
               blank_ok_rate = blank_ok_rate_of sync;
               st2 = (if \<not> locked sync
                      then \<lparr> verdict_pass = False,
                             reasons = reasons st1 @ [FailedToLock trk] \<rparr>
                      else st1);
               st3 = (if blank_ok_rate < MIN_BLANK_BIT_RATE
                      then \<lparr> verdict_pass = False,
                             reasons = reasons st2 @ [BlankIntegrityLow trk blank_ok_rate] \<rparr>
                      else st2)
           in Inr st3))"

fun run_tracks :: "nat \<Rightarrow> rat \<Rightarrow> (track \<Rightarrow> int list) \<Rightarrow> track list \<Rightarrow> sim_state
    \<Rightarrow> error + sim_state" where
  "run_tracks sr tol ch [] st = Inr st"
| "run_tracks sr tol ch (trk # trks) st =
     (case run_track sr tol trk (ch trk) st of
        Inl e \<Rightarrow> Inl e
      | Inr st1 \<Rightarrow> run_tracks sr tol ch trks st1)"

text \<open>
  \<open>run_sim\<close> on the samples read from the file: \<open>channels\<close> is the list of the channels
  of the file and \<open>sr\<close> its sample rate. A file that does not exist is outside the model.
\<close>

definition ch_map :: "nat \<Rightarrow> track \<Rightarrow> nat" where
  \<comment> \<open>the channel of a track: \<open>{"TD": 2, "BD": 3}\<close> in a 4-channel file,
      \<open>{"TD": 0, "BD": 1}\<close> in a 2-channel file\<close>
  "ch_map n_ch trk =
     (if n_ch = 4 then (case trk of TD \<Rightarrow> 2 | BD \<Rightarrow> 3)
      else (case trk of TD \<Rightarrow> 0 | BD \<Rightarrow> 1))"

definition run_sim :: "int list list \<Rightarrow> nat \<Rightarrow> rat \<Rightarrow> track_arg \<Rightarrow> error + sim_state" where
  "run_sim channels sr tol arg =
     (let n_ch = length channels;
          st0 = \<lparr> verdict_pass = True, reasons = [] \<rparr>;
          tracks_to_run = (case arg of BOTH \<Rightarrow> [TD, BD] | Only trk \<Rightarrow> [trk])
      in if n_ch = 4 \<or> n_ch = 2 then
           run_tracks sr tol (\<lambda>trk. channels ! ch_map n_ch trk) tracks_to_run st0
         else Inr \<lparr> verdict_pass = False, reasons = [] \<rparr>)"

text \<open>
  The three thresholds, the threshold and track a reason string names, and whether a
  track of a file violates a threshold, for the statement of the verdict.
\<close>

datatype threshold = ErrorRateLimit | LockScore | BlankBitRate

fun reason_about :: "sim_reason \<Rightarrow> track \<times> threshold" where
  "reason_about (ErrorRateExceeds trk r) = (trk, ErrorRateLimit)"
| "reason_about (FailedToLock trk) = (trk, LockScore)"
| "reason_about (BlankIntegrityLow trk r) = (trk, BlankBitRate)"

definition track_decode :: "BMCDecoder \<Rightarrow> int list list \<Rightarrow> track
    \<Rightarrow> DecodedBit list \<times> BitError list" where
  "track_decode dec channels trk = decode dec (channels ! ch_map (length channels) trk)"

definition track_sync :: "BMCDecoder \<Rightarrow> int list list \<Rightarrow> track \<Rightarrow> SyncResult" where
  "track_sync dec channels trk =
     sync_frames (map bitv (fst (track_decode dec channels trk))) trk 500"

fun violated :: "BMCDecoder \<Rightarrow> int list list \<Rightarrow> track \<Rightarrow> threshold \<Rightarrow> bool" where
  "violated dec channels trk ErrorRateLimit \<longleftrightarrow>
     \<not> error_rate_of (track_decode dec channels trk) \<le> MAX_ERROR_RATE"
| "violated dec channels trk LockScore \<longleftrightarrow>
     \<not> score (track_sync dec channels trk) \<ge> MIN_FRAME_LOCK_SCORE"
| "violated dec channels trk BlankBitRate \<longleftrightarrow>
     \<not> blank_ok_rate_of (track_sync dec channels trk) \<ge> MIN_BLANK_BIT_RATE"

definition track_reasons :: "BMCDecoder \<Rightarrow> int list list \<Rightarrow> track \<Rightarrow> sim_reason list" where
  \<comment> \<open>one reason for every threshold the track violates, in the order of the checks\<close>
  "track_reasons dec channels trk =
     (if violated dec channels trk ErrorRateLimit
      then [ErrorRateExceeds trk (error_rate_of (track_decode dec channels trk))] else [])
     @ (if violated dec channels trk LockScore then [FailedToLock trk] else [])
     @ (if violated dec channels trk BlankBitRate
        then [BlankIntegrityLow trk (blank_ok_rate_of (track_sync dec channels trk))] else [])"

section \<open>Signal data of the show container (SGM/rshw_builder.py)\<close>

definition RSHW_FPS :: nat where "RSHW_FPS = 60"

text \<open>
  The loop \<open>for bit_idx, bit_val in enumerate(frame)\<close>, which appends
  \<open>bit_idx + offset\<close> to \<open>signal_data\<close> for every set bit.
\<close>

fun emit_bits :: "int \<Rightarrow> nat \<Rightarrow> int list \<Rightarrow> int list \<Rightarrow> int list" where
  "emit_bits offset bit_idx [] signal_data = signal_data"
| "emit_bits offset bit_idx (bit_val # rest) signal_data =
     emit_bits offset (bit_idx + 1) rest
       (if bit_val \<noteq> 0 then signal_data @ [int bit_idx + offset] else signal_data)"

definition frame_at :: "rat \<Rightarrow> rat \<Rightarrow> nat" where
  \<comment> \<open>\<open>int(t / frame_s)\<close>, a float division\<close>
  "frame_at t frame_s = nat (py_int (fdiv t frame_s))"

fun signal_loop :: "int list list \<Rightarrow> int list list \<Rightarrow> nat \<Rightarrow> rat \<Rightarrow> rat \<Rightarrow> nat list
    \<Rightarrow> int list \<Rightarrow> int list" where
  "signal_loop td_frames bd_frames fps td_frame_s bd_frame_s [] signal_data = signal_data"
| "signal_loop td_frames bd_frames fps td_frame_s bd_frame_s (rshw_frame_num # rest)
     signal_data =
     (let t = fdiv (of_nat rshw_frame_num) (of_nat fps);
          sd0 = signal_data @ [0];
          td_idx = frame_at t td_frame_s;
          sd1 = (if td_idx < length td_frames
                 then emit_bits 1 0 (td_frames ! td_idx) sd0 else sd0);
          bd_idx = frame_at t bd_frame_s;
          sd2 = (if bd_idx < length bd_frames
                 then emit_bits 151 0 (bd_frames ! bd_idx) sd1 else sd1)
      in signal_loop td_frames bd_frames fps td_frame_s bd_frame_s rest sd2)"

definition build_signal_data :: "int list list \<Rightarrow> int list list \<Rightarrow> rat \<Rightarrow> nat \<Rightarrow> nat
    \<Rightarrow> nat \<Rightarrow> nat \<Rightarrow> int list" where
  "build_signal_data td_frames bd_frames audio_length_s fps baud td_frame_bits bd_frame_bits =
     (let td_frame_s = fdiv (of_nat td_frame_bits) (of_nat baud);
          bd_frame_s = fdiv (of_nat bd_frame_bits) (of_nat baud);
          total_rshw_frames = nat (py_int (fmul audio_length_s (of_nat fps)))
      in signal_loop td_frames bd_frames fps td_frame_s bd_frame_s
           [0..<total_rshw_frames] [])"

text \<open>
  The signal data read off the words of the specification: one group for each output
  frame \<open>n\<close>, at time \<open>t = n / 60\<close>, with the frame of each track at index
  \<open>\<lfloor>t / (frame_bits / 4800)\<rfloor>\<close>, in exact arithmetic.
\<close>

definition set_bit_codes :: "int \<Rightarrow> int list \<Rightarrow> int list" where
  "set_bit_codes offset frame =
     map (\<lambda>(i, v). int i + offset) (filter (\<lambda>(i, v). v \<noteq> 0) (enumerate 0 frame))"

definition active_frame_codes :: "int \<Rightarrow> int list list \<Rightarrow> nat \<Rightarrow> int list" where
  "active_frame_codes offset fs idx =
     (if idx < length fs then set_bit_codes offset (fs ! idx) else [])"

definition spec_frame_index :: "nat \<Rightarrow> nat \<Rightarrow> nat" where
  "spec_frame_index frame_bits_n n =
     nat \<lfloor>(of_nat n / 60) / (of_nat frame_bits_n / 4800 :: rat)\<rfloor>"

definition spec_group :: "int list list \<Rightarrow> int list list \<Rightarrow> nat \<Rightarrow> int list" where
  "spec_group td_frames bd_frames n =
     [0] @ active_frame_codes 1 td_frames (spec_frame_index 94 n)
         @ active_frame_codes 151 bd_frames (spec_frame_index 96 n)"

definition spec_signal_data :: "int list list \<Rightarrow> int list list \<Rightarrow> rat \<Rightarrow> int list" where
  "spec_signal_data td_frames bd_frames audio_length_s =
     concat (map (spec_group td_frames bd_frames)
               [0..<nat (py_int (fmul audio_length_s 60))])"

text \<open>
  The group the program emits for output frame \<open>n\<close>: as \<open>spec_group\<close>, with the frame
  indices the program computes in float arithmetic.
\<close>

definition code_group :: "int list list \<Rightarrow> int list list \<Rightarrow> nat \<Rightarrow> rat \<Rightarrow> rat \<Rightarrow> nat
    \<Rightarrow> int list" where
  "code_group td_frames bd_frames fps td_frame_s bd_frame_s n =
     [0] @ active_frame_codes 1 td_frames (frame_at (fdiv (of_nat n) (of_nat fps)) td_frame_s)
         @ active_frame_codes 151 bd_frames
             (frame_at (fdiv (of_nat n) (of_nat fps)) bd_frame_s)"

text \<open>
  A list of 116 BD frames: 115 frames with no bit set, then a frame with bit 1 set.
\<close>

definition bd_frames_116 :: "int list list" where
  "bd_frames_116 = replicate 115 (replicate 96 0) @ [1 # replicate 95 0]"

text \<open>Whether a frame is as wide as its track and has 0 at every blank index.\<close>

definition blanks_zero :: "track \<Rightarrow> int list \<Rightarrow> bool" where
  "blanks_zero t f \<longleftrightarrow> length f = frame_bits t \<and> (\<forall>b \<in> blank_bits t. f ! (b - 1) = 0)"

section \<open>Properties of the codec\<close>

lemma SAMPLES_PER_BIT_eq: "SAMPLES_PER_BIT = 9"
  by (simp add: SAMPLES_PER_BIT_def SAMPLE_RATE_def BAUD_RATE_def)

lemma BMC_HALF_A_eq: "BMC_HALF_A = 4"
  by (simp add: BMC_HALF_A_def SAMPLES_PER_BIT_eq)

lemma BMC_HALF_B_eq: "BMC_HALF_B = 5"
  by (simp add: BMC_HALF_B_def BMC_HALF_A_eq SAMPLES_PER_BIT_eq)

lemma BAUD_RATE_nz: "BAUD_RATE \<noteq> 0"
  by (simp add: BAUD_RATE_def)

lemma decoder_default_init:
  "BMCDecoder_init SAMPLE_RATE BAUD_RATE TOLERANCE_FACTOR 200 = Inr decoder_default"
  by (simp add: decoder_default_def BMCDecoder_init_def BAUD_RATE_nz Let_def)

lemma decoder_tol0_init:
  "BMCDecoder_init SAMPLE_RATE BAUD_RATE 0 200 = Inr decoder_tol0"
  by (simp add: decoder_tol0_def BMCDecoder_init_def BAUD_RATE_nz Let_def)

text \<open>The float computations of the decoder's constructor, one operation at a time.\<close>

lemma tol_val: "TOLERANCE_FACTOR = 5404319552844595 / 18014398509481984"
  unfolding TOLERANCE_FACTOR_def by code_simp

lemma spb_val: "fdiv (of_nat SAMPLE_RATE) (of_nat BAUD_RATE) = 147 / 16"
  by (simp add: SAMPLE_RATE_def BAUD_RATE_def) code_simp

lemma nh_val: "fdiv (147 / 16) 2 = 147 / 32"
  by code_simp

lemma one_minus_tol:
  "fsub 1 (5404319552844595 / 18014398509481984) = 3152519739159347 / 4503599627370496"
  by code_simp

lemma one_plus_tol:
  "fadd 1 (5404319552844595 / 18014398509481984) = 5854679515581645 / 4503599627370496"
  by code_simp

lemma full_lo_val:
  "fmul (147 / 16) (3152519739159347 / 4503599627370496)
     = 7240943775881625 / 1125899906842624"
  by code_simp

lemma full_hi_val:
  "fmul (147 / 16) (5854679515581645 / 4503599627370496)
     = 6723733506175795 / 562949953421312"
  by code_simp

lemma half_lo_val:
  "fmul (147 / 32) (3152519739159347 / 4503599627370496)
     = 7240943775881625 / 2251799813685248"
  by code_simp

lemma half_hi_val:
  "fmul (147 / 32) (5854679515581645 / 4503599627370496)
     = 6723733506175795 / 1125899906842624"
  by code_simp

lemma decoder_default_eq:
  "decoder_default = \<lparr> sample_rate = SAMPLE_RATE, baud_rate = BAUD_RATE,
     tolerance = 5404319552844595 / 18014398509481984, zero_threshold = 200,
     nom_full = 147 / 16, nom_half = 147 / 32,
     full_lo = 6, full_hi = 12, half_lo = 3, half_hi = 6 \<rparr>"
  unfolding decoder_default_def BMCDecoder_init_def Let_def tol_val spb_val nh_val
    one_minus_tol one_plus_tol full_lo_val full_hi_val half_lo_val half_hi_val
  by (simp add: BAUD_RATE_nz floor_eq_iff ceiling_eq_iff)

lemma fsub_1_0: "fsub 1 0 = 1"
  by code_simp

lemma fadd_1_0: "fadd 1 0 = 1"
  by code_simp

lemma fmul_nf_1: "fmul (147 / 16) 1 = 147 / 16"
  by code_simp

lemma fmul_nh_1: "fmul (147 / 32) 1 = 147 / 32"
  by code_simp

lemma decoder_tol0_eq:
  "decoder_tol0 = \<lparr> sample_rate = SAMPLE_RATE, baud_rate = BAUD_RATE,
     tolerance = 0, zero_threshold = 200,
     nom_full = 147 / 16, nom_half = 147 / 32,
     full_lo = 9, full_hi = 10, half_lo = 4, half_hi = 5 \<rparr>"
  unfolding decoder_tol0_def BMCDecoder_init_def Let_def spb_val nh_val
    fsub_1_0 fadd_1_0 fmul_nf_1 fmul_nh_1
  by (simp add: BAUD_RATE_nz floor_eq_iff ceiling_eq_iff)

lemma default_is_full: "is_full decoder_default r \<longleftrightarrow> 6 \<le> r \<and> r \<le> 12"
  by (auto simp: is_full_def decoder_default_eq)

lemma default_is_half: "is_half decoder_default r \<longleftrightarrow> 3 \<le> r \<and> r \<le> 6"
  by (auto simp: is_half_def decoder_default_eq)

lemma tol0_is_full: "is_full decoder_tol0 r \<longleftrightarrow> r = 9 \<or> r = 10"
  by (auto simp: is_full_def decoder_tol0_eq)

lemma tol0_is_half: "is_half decoder_tol0 r \<longleftrightarrow> r = 4 \<or> r = 5"
  by (auto simp: is_half_def decoder_tol0_eq)

subsection \<open>The encoder\<close>

lemma flip_levels: "flip l = BMC_HIGH \<or> flip l = BMC_LOW"
  by (simp add: flip_def)

lemma flip_neq: "flip l \<noteq> l"
  by (simp add: flip_def BMC_HIGH_def BMC_LOW_def)

lemma encode_bit_eq:
  "encode_bit l b =
     (if b \<noteq> 0 then (replicate 4 (flip l) @ replicate 5 (flip (flip l)), flip (flip l))
      else (replicate 9 (flip l), flip l))"
  by (simp add: encode_bit_def Let_def BMC_HALF_A_eq BMC_HALF_B_eq SAMPLES_PER_BIT_eq)

lemma encode_bits_hd:
  "bs \<noteq> [] \<Longrightarrow> fst (encode_bits l bs) \<noteq> [] \<and> hd (fst (encode_bits l bs)) = flip l"
  by (cases bs) (auto simp: encode_bit_eq split: prod.splits)

lemma encode_bits_Nil_iff: "fst (encode_bits l bs) = [] \<longleftrightarrow> bs = []"
  by (cases bs) (auto simp: encode_bit_eq split: prod.splits)

lemma encode_bits_rest:
  "fst (encode_bits l bs) = [] \<or> hd (fst (encode_bits l bs)) = flip l"
  using encode_bits_hd [of bs l] by (cases "bs = []") auto

lemma encode_bits_append:
  "encode_bits l (a @ b) =
     (fst (encode_bits l a) @ fst (encode_bits (snd (encode_bits l a)) b),
      snd (encode_bits (snd (encode_bits l a)) b))"
  by (induction a arbitrary: l) (auto split: prod.splits)

lemma takeWhile_replicate_append:
  "P v \<Longrightarrow> takeWhile P (replicate m v @ rest) = replicate m v @ takeWhile P rest"
  by (induction m) auto

lemma dropWhile_replicate_append:
  "P v \<Longrightarrow> dropWhile P (replicate m v @ rest) = dropWhile P rest"
  by (induction m) auto

lemma level_runs_replicate_append:
  assumes "0 < n" and "rest = [] \<or> hd rest \<noteq> v"
  shows "level_runs (replicate n v @ rest) = n # level_runs rest"
proof -
  obtain m where n: "n = Suc m" using assms(1) by (cases n) auto
  have tw: "takeWhile (\<lambda>y. y = v) rest = []"
    using assms(2) by (cases rest) auto
  have dw: "dropWhile (\<lambda>y. y = v) rest = rest"
    using assms(2) by (cases rest) auto
  have "takeWhile (\<lambda>y. y = v) (replicate m v @ rest) = replicate m v"
    by (simp add: takeWhile_replicate_append tw)
  moreover have "dropWhile (\<lambda>y. y = v) (replicate m v @ rest) = rest"
    by (simp add: dropWhile_replicate_append dw)
  ultimately show ?thesis by (simp add: n)
qed

lemma encode_bits_runs:
  "r \<in> set (level_runs (fst (encode_bits l bs))) \<Longrightarrow> r \<le> 9"
proof (induction bs arbitrary: l)
  case Nil
  then show ?case by simp
next
  case (Cons b bs)
  show ?case
  proof (cases "b = 0")
    case True
    let ?rest = "fst (encode_bits (flip l) bs)"
    have rest: "?rest = [] \<or> hd ?rest \<noteq> flip l"
      using encode_bits_rest [of "flip l" bs] flip_neq [of "flip l"] by auto
    have "fst (encode_bits l (b # bs)) = replicate 9 (flip l) @ ?rest"
      using True by (simp add: encode_bit_eq split: prod.splits)
    then have "level_runs (fst (encode_bits l (b # bs))) = 9 # level_runs ?rest"
      using level_runs_replicate_append [OF _ rest, of 9] by simp
    then show ?thesis using Cons.prems Cons.IH [of "flip l"] by auto
  next
    case False
    let ?l2 = "flip (flip l)"
    let ?rest = "fst (encode_bits ?l2 bs)"
    have rest: "?rest = [] \<or> hd ?rest \<noteq> ?l2"
      using encode_bits_rest [of ?l2 bs] flip_neq [of ?l2] by auto
    have r2: "replicate 5 ?l2 @ ?rest = [] \<or> hd (replicate 5 ?l2 @ ?rest) \<noteq> flip l"
      using flip_neq [of "flip l"] by (simp add: numeral_eq_Suc)
    have "fst (encode_bits l (b # bs)) = replicate 4 (flip l) @ replicate 5 ?l2 @ ?rest"
      using False by (simp add: encode_bit_eq split: prod.splits)
    then have "level_runs (fst (encode_bits l (b # bs))) = 4 # 5 # level_runs ?rest"
      using level_runs_replicate_append [OF _ r2, of 4]
        level_runs_replicate_append [OF _ rest, of 5] by simp
    then show ?thesis using Cons.prems Cons.IH [of ?l2] by auto
  qed
qed

text \<open>
  C5. Two successive \<open>encode_bits\<close> calls on one encoder (the second starts at the
  level the first left) never produce a run of equal samples longer than
  \<open>SAMPLES_PER_BIT = 9\<close> in the concatenated output, whatever the initial level.
\<close>

theorem phase_continuity:
  assumes "encode_bits level a = (sa, l1)" and "encode_bits l1 b = (sb, l2)"
    and "r \<in> set (level_runs (sa @ sb))"
  shows "r \<le> SAMPLES_PER_BIT"
proof -
  have "fst (encode_bits level (a @ b)) = sa @ sb"
    using assms(1,2) by (simp add: encode_bits_append)
  then show ?thesis
    using assms(3) encode_bits_runs [of r level "a @ b"] by (simp add: SAMPLES_PER_BIT_eq)
qed

theorem phase_continuity_witness:
  "encode_bits BMC_LOW [1] = (replicate 4 BMC_HIGH @ replicate 5 BMC_LOW, BMC_LOW)
   \<and> encode_bits BMC_LOW [0, 0] = (replicate 9 BMC_HIGH @ replicate 9 BMC_LOW, BMC_LOW)
   \<and> level_runs ((replicate 4 BMC_HIGH @ replicate 5 BMC_LOW)
        @ (replicate 9 BMC_HIGH @ replicate 9 BMC_LOW)) = [4, 5, 9, 9]
   \<and> (9 :: nat) \<le> SAMPLES_PER_BIT"
proof -
  have a: "encode_bits BMC_LOW [1] = (replicate 4 BMC_HIGH @ replicate 5 BMC_LOW, BMC_LOW)"
    by (simp add: encode_bit_eq flip_def BMC_HIGH_def BMC_LOW_def)
  have b: "encode_bits BMC_LOW [0, 0] = (replicate 9 BMC_HIGH @ replicate 9 BMC_LOW, BMC_LOW)"
    by (simp add: encode_bit_eq flip_def BMC_HIGH_def BMC_LOW_def)
  have c: "level_runs ((replicate 4 BMC_HIGH @ replicate 5 BMC_LOW)
        @ (replicate 9 BMC_HIGH @ replicate 9 BMC_LOW)) = [4, 5, 9, 9]"
    by (simp add: BMC_HIGH_def BMC_LOW_def numeral_eq_Suc)
  then have "9 \<in> set (level_runs ((replicate 4 BMC_HIGH @ replicate 5 BMC_LOW)
        @ (replicate 9 BMC_HIGH @ replicate 9 BMC_LOW)))"
    by simp
  from phase_continuity [OF a b this] a b c show ?thesis by simp
qed

subsection \<open>Round trip through the decoder\<close>

lemma in_run_level:
  "v = BMC_HIGH \<or> v = BMC_LOW \<Longrightarrow> in_run 200 (v > 0) v"
  by (auto simp: in_run_def BMC_HIGH_def BMC_LOW_def)

lemma in_run_flip:
  "v = BMC_HIGH \<or> v = BMC_LOW \<Longrightarrow> \<not> in_run 200 (v > 0) (flip v)"
  by (auto simp: in_run_def flip_def BMC_HIGH_def BMC_LOW_def)

lemma run_lengths_replicate_append:
  assumes "0 < n" and "v = BMC_HIGH \<or> v = BMC_LOW" and "rest = [] \<or> hd rest = flip v"
  shows "run_lengths_from 200 i (replicate n v @ rest)
           = (i, n) # run_lengths_from 200 (i + n) rest"
proof -
  obtain m where n: "n = Suc m" using assms(1) by (cases n) auto
  have nz: "\<not> \<bar>v\<bar> < 200"
    using assms(2) by (auto simp: BMC_HIGH_def BMC_LOW_def)
  have tw: "takeWhile (in_run 200 (v > 0)) rest = []"
    using assms(3) in_run_flip [OF assms(2)] by (cases rest) auto
  have dw: "dropWhile (in_run 200 (v > 0)) rest = rest"
    using assms(3) in_run_flip [OF assms(2)] by (cases rest) auto
  have t: "takeWhile (in_run 200 (v > 0)) (replicate m v @ rest) = replicate m v"
    by (simp add: takeWhile_replicate_append in_run_level [OF assms(2)] tw)
  have d: "dropWhile (in_run 200 (v > 0)) (replicate m v @ rest) = rest"
    by (simp add: dropWhile_replicate_append in_run_level [OF assms(2)] dw)
  show ?thesis
    using nz by (simp add: n t d Let_def)
qed

lemma roundtrip_from:
  assumes "set bits \<subseteq> {0, 1}"
  shows "map bitv (fst (consume_runs decoder_default
             (run_lengths_from 200 i (fst (encode_bits l bits))))) = bits
         \<and> snd (consume_runs decoder_default
             (run_lengths_from 200 i (fst (encode_bits l bits)))) = []"
  using assms
proof (induction bits arbitrary: l i)
  case Nil
  then show ?case by simp
next
  case (Cons b bs)
  then have bs: "set bs \<subseteq> {0, 1}" and b: "b = 0 \<or> b = 1" by auto
  show ?case
  proof (cases "b = 0")
    case True
    let ?rest = "fst (encode_bits (flip l) bs)"
    have enc: "fst (encode_bits l (0 # bs)) = replicate 9 (flip l) @ ?rest"
      by (simp add: encode_bit_eq split: prod.splits)
    have runs: "run_lengths_from 200 i (replicate 9 (flip l) @ ?rest)
                  = (i, 9) # run_lengths_from 200 (i + 9) ?rest"
      by (rule run_lengths_replicate_append)
         (simp_all add: flip_levels encode_bits_rest)
    have full: "run_lengths_from 200 i (fst (encode_bits l (0 # bs)))
                  = (i, 9) # run_lengths_from 200 (i + 9) ?rest"
      by (simp only: enc runs)
    show ?thesis
      unfolding True full
      using Cons.IH [OF bs, of "i + 9" "flip l"]
      by (simp add: default_is_full add_bit_def)
  next
    case False
    then have b1: "b = 1" using b by simp
    let ?l2 = "flip (flip l)"
    let ?rest = "fst (encode_bits ?l2 bs)"
    have enc: "fst (encode_bits l (1 # bs)) = replicate 4 (flip l) @ replicate 5 ?l2 @ ?rest"
      by (simp add: encode_bit_eq split: prod.splits)
    have runs2: "run_lengths_from 200 (i + 4) (replicate 5 ?l2 @ ?rest)
                  = (i + 4, 5) # run_lengths_from 200 (i + 4 + 5) ?rest"
      by (rule run_lengths_replicate_append)
         (simp_all add: flip_levels encode_bits_rest)
    have runs1: "run_lengths_from 200 i (replicate 4 (flip l) @ replicate 5 ?l2 @ ?rest)
                  = (i, 4) # run_lengths_from 200 (i + 4) (replicate 5 ?l2 @ ?rest)"
      by (rule run_lengths_replicate_append)
         (simp_all add: flip_levels numeral_eq_Suc)
    have full: "run_lengths_from 200 i (fst (encode_bits l (1 # bs)))
                  = (i, 4) # (i + 4, 5) # run_lengths_from 200 (i + 4 + 5) ?rest"
      by (simp only: enc runs1 runs2)
    show ?thesis
      unfolding b1 full
      using Cons.IH [OF bs, of "i + 4 + 5" ?l2]
      by (simp add: default_is_full default_is_half add_bit_def)
  qed
qed

text \<open>
  C1. Encoding any sequence of 0/1 bits from any initial level and decoding the samples
  with the default decoder (44100 Hz, 4800 baud, tolerance 0.30, zero threshold 200)
  gives back the bit sequence and no decode error.
\<close>

theorem roundtrip:
  assumes "set bits \<subseteq> {0, 1}"
  shows "BMCDecoder_init SAMPLE_RATE BAUD_RATE TOLERANCE_FACTOR 200 = Inr decoder_default
         \<and> map bitv (fst (decode decoder_default (fst (encode_bits level bits)))) = bits
         \<and> snd (decode decoder_default (fst (encode_bits level bits))) = []"
  using roundtrip_from [OF assms, of 0 level]
  by (simp add: decode_def run_lengths_def decoder_default_init decoder_default_eq)

theorem roundtrip_witness:
  "set [1, 0 :: int] \<subseteq> {0, 1}
   \<and> map bitv (fst (decode decoder_default (fst (encode_bits BMC_LOW [1, 0])))) = [1, 0]
   \<and> snd (decode decoder_default (fst (encode_bits BMC_LOW [1, 0]))) = []"
proof -
  have h: "set [1, 0 :: int] \<subseteq> {0, 1}" by simp
  from roundtrip [OF h, of BMC_LOW] h show ?thesis by simp
qed

subsection \<open>The decoder loop\<close>

lemma runs_used_simp [simp]:
  "runs_used (DecodedBit b p a rb t) = (case rb of None \<Rightarrow> 1 | Some r2 \<Rightarrow> 2)"
  by (simp add: runs_used_def)

lemma consume_full:
  "is_full d r \<Longrightarrow>
   consume_runs d ((pos, r) # rest)
     = add_bit (DecodedBit 0 pos r None True) (consume_runs d rest)"
  by simp

lemma consume_outside:
  "\<not> is_full d r \<Longrightarrow> \<not> is_half d r \<Longrightarrow>
   consume_runs d ((pos, r) # rest)
     = add_error
         (BitError pos r (OutsideWindows r (full_lo d) (full_hi d) (half_lo d) (half_hi d)))
         (consume_runs d rest)"
  by simp

lemma consume_half_last:
  "\<not> is_full d r \<Longrightarrow> is_half d r \<Longrightarrow>
   consume_runs d [(pos, r)] = ([DecodedBit 1 pos r None False], [])"
  by (simp add: add_bit_def)

lemma consume_half_half:
  "\<not> is_full d r \<Longrightarrow> is_half d r \<Longrightarrow> is_half d r2 \<Longrightarrow>
   consume_runs d ((pos, r) # (pos2, r2) # rest2)
     = add_bit (DecodedBit 1 pos r (Some r2) True) (consume_runs d rest2)"
  by simp

lemma consume_half_sum:
  "\<not> is_full d r \<Longrightarrow> is_half d r \<Longrightarrow> \<not> is_half d r2 \<Longrightarrow> is_full d (r + r2) \<Longrightarrow>
   consume_runs d ((pos, r) # (pos2, r2) # rest2)
     = add_bit (DecodedBit 1 pos r (Some r2) False) (consume_runs d rest2)"
  by simp

lemma consume_half_error:
  "\<not> is_full d r \<Longrightarrow> is_half d r \<Longrightarrow> \<not> is_half d r2 \<Longrightarrow> \<not> is_full d (r + r2) \<Longrightarrow>
   consume_runs d ((pos, r) # (pos2, r2) # rest2)
     = add_error (BitError pos r (HalfThenNonHalf r r2 (r + r2)))
         (consume_runs d ((pos2, r2) # rest2))"
  by simp

lemma consume_runs_accounting:
  "sum_list (map runs_used (fst (consume_runs d runs))) + length (snd (consume_runs d runs))
     = length runs"
proof (induction runs rule: length_induct)
  case (1 runs)
  let ?acc = "\<lambda>rs. sum_list (map runs_used (fst (consume_runs d rs)))
                  + length (snd (consume_runs d rs))"
  have IH: "\<And>ys. length ys < length runs \<Longrightarrow> ?acc ys = length ys"
    using 1 by blast
  show ?case
  proof (cases runs)
    case Nil
    then show ?thesis by simp
  next
    case (Cons p rest)
    obtain pos r where p: "p = (pos, r)" by (cases p)
    have ih_rest: "?acc rest = length rest" using IH [of rest] Cons by simp
    show ?thesis
    proof (cases "is_full d r")
      case True
      show ?thesis
        unfolding Cons p consume_full [OF True]
        using ih_rest by (simp add: add_bit_def)
    next
      case nf: False
      show ?thesis
      proof (cases "is_half d r")
        case False
        show ?thesis
          unfolding Cons p consume_outside [OF nf False]
          using ih_rest by (simp add: add_error_def)
      next
        case h: True
        show ?thesis
        proof (cases rest)
          case Nil
          show ?thesis
            unfolding Cons p Nil consume_half_last [OF nf h]
            by simp
        next
          case c2: (Cons p2 rest2)
          obtain pos2 r2 where p2: "p2 = (pos2, r2)" by (cases p2)
          have ih_rest2: "?acc rest2 = length rest2"
            using IH [of rest2] Cons c2 by simp
          show ?thesis
          proof (cases "is_half d r2")
            case True
            show ?thesis
              unfolding Cons p c2 p2 consume_half_half [OF nf h True]
              using ih_rest2 by (simp add: add_bit_def)
          next
            case h2: False
            show ?thesis
            proof (cases "is_full d (r + r2)")
              case True
              show ?thesis
                unfolding Cons p c2 p2 consume_half_sum [OF nf h h2 True]
                using ih_rest2 by (simp add: add_bit_def)
            next
              case False
              show ?thesis
                unfolding Cons p c2 p2 consume_half_error [OF nf h h2 False]
                using ih_rest [unfolded c2 p2]
                by (simp add: add_error_def del: consume_runs.simps)
            qed
          qed
        qed
      qed
    qed
  qed
qed

text \<open>
  C7 (amended). \<open>decode\<close> is a total function: it returns both lists for every
  sample sequence. Every extracted run is consumed: a decoded bit accounts for one or
  two runs and an error for one. A last run that is in the half window and not in the
  full window is accepted as bit 1 with \<open>in_tolerance = False\<close>; a last run in the
  full window is bit 0.
\<close>

theorem decode_consumes_every_run:
  "sum_list (map runs_used (fst (decode d samples))) + length (snd (decode d samples))
     = length (run_lengths d samples)
   \<and> (is_half d r \<and> \<not> is_full d r \<longrightarrow>
        consume_runs d [(pos, r)] = ([DecodedBit 1 pos r None False], []))
   \<and> (is_full d r \<longrightarrow>
        consume_runs d [(pos, r)] = ([DecodedBit 0 pos r None True], []))"
  by (simp add: decode_def consume_runs_accounting add_bit_def)

theorem decode_consumes_every_run_witness:
  "is_half decoder_default 4 \<and> \<not> is_full decoder_default 4
   \<and> consume_runs decoder_default [(0, 4)] = ([DecodedBit 1 0 4 None False], [])
   \<and> is_full decoder_default 9
   \<and> consume_runs decoder_default [(0, 9)] = ([DecodedBit 0 0 9 None True], [])"
  using decode_consumes_every_run [of decoder_default "[]" 4 0]
    decode_consumes_every_run [of decoder_default "[]" 9 0]
  by (simp add: default_is_full default_is_half del: consume_runs.simps(2))

lemma run_lengths_single_run:
  "0 < n \<Longrightarrow> run_lengths_from 200 0 (replicate n BMC_HIGH) = [(0, n)]"
  using run_lengths_replicate_append [of n BMC_HIGH "[]" 0] by simp

text \<open>
  C7 as stated fails: with the default windows a run of 6 samples is in the half window
  \<open>[3, 6]\<close> and in the full window \<open>[6, 12]\<close>; the full window is tested first, so a
  trailing run of 6 is bit 0 with \<open>in_tolerance = True\<close>.
\<close>

theorem trailing_half_counterexample:
  "is_half decoder_default 6
   \<and> decode decoder_default (replicate 6 BMC_HIGH) = ([DecodedBit 0 0 6 None True], [])"
  by (simp add: decode_def run_lengths_def decoder_default_eq run_lengths_single_run
        is_full_def is_half_def add_bit_def)

subsection \<open>Tolerance 0\<close>

lemma tol0_fields:
  "full_lo decoder_tol0 = 9" "full_hi decoder_tol0 = 10"
  "half_lo decoder_tol0 = 4" "half_hi decoder_tol0 = 5"
  "zero_threshold decoder_tol0 = 200"
  by (simp_all add: decoder_tol0_eq)

lemma tol0_full_step:
  "r = 9 \<or> r = 10 \<Longrightarrow>
   consume_runs decoder_tol0 ((pos, r) # rest)
     = add_bit (DecodedBit 0 pos r None True) (consume_runs decoder_tol0 rest)"
  by (simp add: tol0_is_full)

lemma tol0_half_last:
  "r = 4 \<or> r = 5 \<Longrightarrow>
   consume_runs decoder_tol0 [(pos, r)] = ([DecodedBit 1 pos r None False], [])"
  by (rule consume_half_last) (auto simp: tol0_is_full tol0_is_half)

lemma tol0_half_half:
  "r = 4 \<or> r = 5 \<Longrightarrow> r2 = 4 \<or> r2 = 5 \<Longrightarrow>
   consume_runs decoder_tol0 ((pos, r) # (pos2, r2) # rest)
     = add_bit (DecodedBit 1 pos r (Some r2) True) (consume_runs decoder_tol0 rest)"
  by (rule consume_half_half) (auto simp: tol0_is_full tol0_is_half)

lemma tol0_half_six:
  "consume_runs decoder_tol0 ((pos, 4) # (pos2, 6) # rest)
     = add_bit (DecodedBit 1 pos 4 (Some 6) False) (consume_runs decoder_tol0 rest)"
  by (rule consume_half_sum) (simp_all add: tol0_is_full tol0_is_half)

lemma tol0_half_error:
  "r = 4 \<or> r = 5 \<Longrightarrow> r2 \<noteq> 4 \<Longrightarrow> r2 \<noteq> 5 \<Longrightarrow> \<not> (r = 4 \<and> r2 = 6) \<Longrightarrow>
   consume_runs decoder_tol0 ((pos, r) # (pos2, r2) # rest)
     = add_error (BitError pos r (HalfThenNonHalf r r2 (r + r2)))
         (consume_runs decoder_tol0 ((pos2, r2) # rest))"
  by (rule consume_half_error) (auto simp: tol0_is_full tol0_is_half)

lemma tol0_outside:
  "r \<noteq> 4 \<Longrightarrow> r \<noteq> 5 \<Longrightarrow> r \<noteq> 9 \<Longrightarrow> r \<noteq> 10 \<Longrightarrow>
   consume_runs decoder_tol0 ((pos, r) # rest)
     = add_error (BitError pos r (OutsideWindows r 9 10 4 5)) (consume_runs decoder_tol0 rest)"
  using consume_outside [of decoder_tol0 r pos rest]
  by (simp add: tol0_is_full tol0_is_half tol0_fields del: consume_runs.simps(2))

text \<open>The six ways the loop goes on at tolerance 0, as an induction rule.\<close>

lemma tol0_runs_induct [case_names Nil Full HalfLast HalfHalf HalfSix HalfError Outside]:
  assumes "P []"
    and "\<And>pos r rest. r = 9 \<or> r = 10 \<Longrightarrow> P rest \<Longrightarrow> P ((pos, r) # rest)"
    and "\<And>pos r. r = 4 \<or> r = 5 \<Longrightarrow> P [(pos, r)]"
    and "\<And>pos r pos2 r2 rest.
           r = 4 \<or> r = 5 \<Longrightarrow> r2 = 4 \<or> r2 = 5 \<Longrightarrow> P rest \<Longrightarrow> P ((pos, r) # (pos2, r2) # rest)"
    and "\<And>pos pos2 rest. P rest \<Longrightarrow> P ((pos, 4) # (pos2, 6) # rest)"
    and "\<And>pos r pos2 r2 rest.
           r = 4 \<or> r = 5 \<Longrightarrow> r2 \<noteq> 4 \<Longrightarrow> r2 \<noteq> 5 \<Longrightarrow> \<not> (r = 4 \<and> r2 = 6) \<Longrightarrow>
           P ((pos2, r2) # rest) \<Longrightarrow> P ((pos, r) # (pos2, r2) # rest)"
    and "\<And>pos r rest.
           r \<noteq> 4 \<Longrightarrow> r \<noteq> 5 \<Longrightarrow> r \<noteq> 9 \<Longrightarrow> r \<noteq> 10 \<Longrightarrow> P rest \<Longrightarrow> P ((pos, r) # rest)"
  shows "P (runs :: (nat \<times> nat) list)"
proof (induction runs rule: length_induct)
  case (1 runs)
  then have IH: "\<And>ys. length ys < length runs \<Longrightarrow> P ys" by blast
  show ?case
  proof (cases runs)
    case Nil
    then show ?thesis using assms(1) by simp
  next
    case (Cons p rest)
    obtain pos r where p: "p = (pos, r)" by (cases p)
    have rest: "P rest" using IH Cons by simp
    consider "r = 9 \<or> r = 10" | "r = 4 \<or> r = 5" | "r \<noteq> 4 \<and> r \<noteq> 5 \<and> r \<noteq> 9 \<and> r \<noteq> 10"
      by blast
    then show ?thesis
    proof cases
      case 1
      then show ?thesis using assms(2) rest Cons p by simp
    next
      case 2
      show ?thesis
      proof (cases rest)
        case Nil
        then show ?thesis using assms(3) 2 Cons p by simp
      next
        case (Cons p2 rest2)
        obtain pos2 r2 where p2: "p2 = (pos2, r2)" by (cases p2)
        have runs: "runs = (pos, r) # (pos2, r2) # rest2"
          using \<open>runs = p # rest\<close> Cons p p2 by simp
        have rest2: "P rest2" using IH runs by simp
        consider "r2 = 4 \<or> r2 = 5" | "r = 4 \<and> r2 = 6"
          | "r2 \<noteq> 4 \<and> r2 \<noteq> 5 \<and> \<not> (r = 4 \<and> r2 = 6)"
          by blast
        then show ?thesis
        proof cases
          case 1
          then show ?thesis using assms(4) 2 rest2 runs by simp
        next
          case 2
          then show ?thesis using assms(5) rest2 runs by simp
        next
          case 3
          then show ?thesis using assms(6) [of r r2 pos2 rest2 pos] 2 rest Cons p2 runs by simp
        qed
      qed
    next
      case 3
      then show ?thesis using assms(7) rest Cons p by simp
    qed
  qed
qed

lemma tol0_bits_shape:
  "b \<in> set (fst (consume_runs decoder_tol0 runs)) \<Longrightarrow>
     (bitv b = 0 \<or> bitv b = 1)
   \<and> (bitv b = 0 \<longleftrightarrow> run_a b = 9 \<or> run_a b = 10)
   \<and> (bitv b = 1 \<longleftrightarrow> run_a b = 4 \<or> run_a b = 5)
   \<and> (bitv b = 0 \<longrightarrow> run_b b = None)
   \<and> (\<forall>r2. run_b b = Some r2 \<longrightarrow> r2 = 4 \<or> r2 = 5 \<or> (run_a b = 4 \<and> r2 = 6))
   \<and> (in_tolerance b \<longleftrightarrow> bitv b = 0 \<or> run_b b = Some 4 \<or> run_b b = Some 5)"
proof (induction runs rule: tol0_runs_induct)
  case Nil
  then show ?case by simp
next
  case (Full pos r rest)
  then show ?case
    unfolding tol0_full_step [OF Full(1)] by (auto simp: add_bit_def)
next
  case (HalfLast pos r)
  then show ?case
    unfolding tol0_half_last [OF HalfLast(1)] by auto
next
  case (HalfHalf pos r pos2 r2 rest)
  then show ?case
    unfolding tol0_half_half [OF HalfHalf(1,2)] by (auto simp: add_bit_def)
next
  case (HalfSix pos pos2 rest)
  then show ?case
    unfolding tol0_half_six by (auto simp: add_bit_def)
next
  case (HalfError pos r pos2 r2 rest)
  then show ?case
    unfolding tol0_half_error [OF HalfError(1-4)]
    by (auto simp add: add_error_def simp del: consume_runs.simps(2))
next
  case (Outside pos r rest)
  then show ?case
    unfolding tol0_outside [OF Outside(1-4)] by (auto simp: add_error_def)
qed

lemma tol0_bad_run_error:
  "(p, q) \<in> set runs \<Longrightarrow> q \<notin> {4, 5, 6, 9, 10} \<Longrightarrow>
   BitError p q (OutsideWindows q 9 10 4 5) \<in> set (snd (consume_runs decoder_tol0 runs))"
proof (induction runs rule: tol0_runs_induct)
  case Nil
  then show ?case by simp
next
  case (Full pos r rest)
  then show ?case
    unfolding tol0_full_step [OF Full(1)] by (auto simp: add_bit_def)
next
  case (HalfLast pos r)
  then show ?case by auto
next
  case (HalfHalf pos r pos2 r2 rest)
  then show ?case
    unfolding tol0_half_half [OF HalfHalf(1,2)] by (auto simp: add_bit_def)
next
  case (HalfSix pos pos2 rest)
  then show ?case
    unfolding tol0_half_six by (auto simp: add_bit_def)
next
  case (HalfError pos r pos2 r2 rest)
  then show ?case
    unfolding tol0_half_error [OF HalfError(1-4)]
    by (auto simp add: add_error_def simp del: consume_runs.simps(2))
next
  case (Outside pos r rest)
  then show ?case
    unfolding tol0_outside [OF Outside(1-4)] by (auto simp: add_error_def)
qed

lemma tol0_errors_shape:
  "e \<in> set (snd (consume_runs decoder_tol0 runs)) \<Longrightarrow>
     (err_sample_pos e, run_length e) \<in> set runs
   \<and> run_length e \<noteq> 9 \<and> run_length e \<noteq> 10"
proof (induction runs rule: tol0_runs_induct)
  case Nil
  then show ?case by simp
next
  case (Full pos r rest)
  then show ?case
    unfolding tol0_full_step [OF Full(1)] by (auto simp: add_bit_def)
next
  case (HalfLast pos r)
  then show ?case
    unfolding tol0_half_last [OF HalfLast(1)] by auto
next
  case (HalfHalf pos r pos2 r2 rest)
  then show ?case
    unfolding tol0_half_half [OF HalfHalf(1,2)] by (auto simp: add_bit_def)
next
  case (HalfSix pos pos2 rest)
  then show ?case
    unfolding tol0_half_six by (auto simp: add_bit_def)
next
  case (HalfError pos r pos2 r2 rest)
  then show ?case
    unfolding tol0_half_error [OF HalfError(1-4)]
    by (auto simp add: add_error_def simp del: consume_runs.simps(2))
next
  case (Outside pos r rest)
  then show ?case
    unfolding tol0_outside [OF Outside(1-4)] by (auto simp: add_error_def)
qed

text \<open>
  C6 (amended). With tolerance 0 (44100 Hz, 4800 baud) the windows are the floor and the
  ceiling of the fractional nominal lengths: full \<open>[9, 10]\<close>, half \<open>[4, 5]\<close>. At every
  step of the loop, with \<open>r\<close> the run it is at and \<open>r2\<close> the run after it:
  \<^item> \<open>r\<close> of 9 or 10 is bit 0, and one run is consumed;
  \<^item> \<open>r\<close> of 4 or 5 followed by \<open>r2\<close> of 4 or 5 is bit 1, and both runs are consumed;
  \<^item> \<open>r = 4\<close> followed by \<open>r2 = 6\<close> is bit 1 marked out of tolerance (the sum 10 is in
    the full window), and both runs are consumed;
  \<^item> \<open>r\<close> of 4 or 5 as the last run is bit 1 marked out of tolerance;
  \<^item> \<open>r\<close> of 4 or 5 followed by any other \<open>r2\<close> is a decode error for \<open>r\<close>, and the loop
    goes on at \<open>r2\<close>;
  \<^item> any other \<open>r\<close> is a decode error, and one run is consumed.

  Consequently, for every run list: a decoded bit is 0 iff its first run is 9 or 10 and
  1 iff its first run is 4 or 5; its second run, if any, is 4 or 5, or 6 after a 4; it is
  in tolerance iff it is a 0 or has a second run of 4 or 5. Every run whose length is not
  4, 5, 6, 9 or 10 gives a decode error at its own position, wherever it stands in the
  list, and no decode error is for a run of 9 or 10.
\<close>

theorem tolerance_zero_decoding:
  "(is_full decoder_tol0 r \<longleftrightarrow> r = 9 \<or> r = 10)
   \<and> (is_half decoder_tol0 r \<longleftrightarrow> r = 4 \<or> r = 5)
   \<and> (r = 9 \<or> r = 10 \<longrightarrow>
        consume_runs decoder_tol0 ((pos, r) # rest)
          = add_bit (DecodedBit 0 pos r None True) (consume_runs decoder_tol0 rest))
   \<and> ((r = 4 \<or> r = 5) \<and> (r2 = 4 \<or> r2 = 5) \<longrightarrow>
        consume_runs decoder_tol0 ((pos, r) # (pos2, r2) # rest)
          = add_bit (DecodedBit 1 pos r (Some r2) True) (consume_runs decoder_tol0 rest))
   \<and> consume_runs decoder_tol0 ((pos, 4) # (pos2, 6) # rest)
          = add_bit (DecodedBit 1 pos 4 (Some 6) False) (consume_runs decoder_tol0 rest)
   \<and> (r = 4 \<or> r = 5 \<longrightarrow>
        consume_runs decoder_tol0 [(pos, r)] = ([DecodedBit 1 pos r None False], []))
   \<and> ((r = 4 \<or> r = 5) \<and> r2 \<noteq> 4 \<and> r2 \<noteq> 5 \<and> \<not> (r = 4 \<and> r2 = 6) \<longrightarrow>
        consume_runs decoder_tol0 ((pos, r) # (pos2, r2) # rest)
          = add_error (BitError pos r (HalfThenNonHalf r r2 (r + r2)))
              (consume_runs decoder_tol0 ((pos2, r2) # rest)))
   \<and> (r \<notin> {4, 5, 9, 10} \<longrightarrow>
        consume_runs decoder_tol0 ((pos, r) # rest)
          = add_error (BitError pos r (OutsideWindows r 9 10 4 5))
              (consume_runs decoder_tol0 rest))
   \<and> (\<forall>b \<in> set (fst (consume_runs decoder_tol0 runs)).
          (bitv b = 0 \<or> bitv b = 1)
        \<and> (bitv b = 0 \<longleftrightarrow> run_a b = 9 \<or> run_a b = 10)
        \<and> (bitv b = 1 \<longleftrightarrow> run_a b = 4 \<or> run_a b = 5)
        \<and> (bitv b = 0 \<longrightarrow> run_b b = None)
        \<and> (\<forall>q. run_b b = Some q \<longrightarrow> q = 4 \<or> q = 5 \<or> (run_a b = 4 \<and> q = 6))
        \<and> (in_tolerance b \<longleftrightarrow> bitv b = 0 \<or> run_b b = Some 4 \<or> run_b b = Some 5))
   \<and> (\<forall>(p, q) \<in> set runs. q \<notin> {4, 5, 6, 9, 10} \<longrightarrow>
          BitError p q (OutsideWindows q 9 10 4 5) \<in> set (snd (consume_runs decoder_tol0 runs)))
   \<and> (\<forall>e \<in> set (snd (consume_runs decoder_tol0 runs)).
          (err_sample_pos e, run_length e) \<in> set runs
        \<and> run_length e \<noteq> 9 \<and> run_length e \<noteq> 10)"
proof -
  have shape: "\<forall>b \<in> set (fst (consume_runs decoder_tol0 runs)).
          (bitv b = 0 \<or> bitv b = 1)
        \<and> (bitv b = 0 \<longleftrightarrow> run_a b = 9 \<or> run_a b = 10)
        \<and> (bitv b = 1 \<longleftrightarrow> run_a b = 4 \<or> run_a b = 5)
        \<and> (bitv b = 0 \<longrightarrow> run_b b = None)
        \<and> (\<forall>q. run_b b = Some q \<longrightarrow> q = 4 \<or> q = 5 \<or> (run_a b = 4 \<and> q = 6))
        \<and> (in_tolerance b \<longleftrightarrow> bitv b = 0 \<or> run_b b = Some 4 \<or> run_b b = Some 5)"
    using tol0_bits_shape [of _ runs] by blast
  have bad: "\<forall>(p, q) \<in> set runs. q \<notin> {4, 5, 6, 9, 10} \<longrightarrow>
          BitError p q (OutsideWindows q 9 10 4 5) \<in> set (snd (consume_runs decoder_tol0 runs))"
    using tol0_bad_run_error [of _ _ runs] by blast
  have errs: "\<forall>e \<in> set (snd (consume_runs decoder_tol0 runs)).
          (err_sample_pos e, run_length e) \<in> set runs
        \<and> run_length e \<noteq> 9 \<and> run_length e \<noteq> 10"
    using tol0_errors_shape [of _ runs] by blast
  have steps:
    "r = 9 \<or> r = 10 \<longrightarrow>
        consume_runs decoder_tol0 ((pos, r) # rest)
          = add_bit (DecodedBit 0 pos r None True) (consume_runs decoder_tol0 rest)"
    "(r = 4 \<or> r = 5) \<and> (r2 = 4 \<or> r2 = 5) \<longrightarrow>
        consume_runs decoder_tol0 ((pos, r) # (pos2, r2) # rest)
          = add_bit (DecodedBit 1 pos r (Some r2) True) (consume_runs decoder_tol0 rest)"
    "r = 4 \<or> r = 5 \<longrightarrow>
        consume_runs decoder_tol0 [(pos, r)] = ([DecodedBit 1 pos r None False], [])"
    "(r = 4 \<or> r = 5) \<and> r2 \<noteq> 4 \<and> r2 \<noteq> 5 \<and> \<not> (r = 4 \<and> r2 = 6) \<longrightarrow>
        consume_runs decoder_tol0 ((pos, r) # (pos2, r2) # rest)
          = add_error (BitError pos r (HalfThenNonHalf r r2 (r + r2)))
              (consume_runs decoder_tol0 ((pos2, r2) # rest))"
    "r \<notin> {4, 5, 9, 10} \<longrightarrow>
        consume_runs decoder_tol0 ((pos, r) # rest)
          = add_error (BitError pos r (OutsideWindows r 9 10 4 5))
              (consume_runs decoder_tol0 rest)"
    using tol0_full_step [of r pos rest] tol0_half_half [of r r2 pos pos2 rest]
      tol0_half_last [of r pos] tol0_half_error [of r r2 pos pos2 rest]
      tol0_outside [of r pos rest]
    by blast+
  show ?thesis
    using tol0_is_full [of r] tol0_is_half [of r] steps tol0_half_six [of pos pos2 rest]
      shape bad errs
    by (intro conjI)
qed

theorem tolerance_zero_decoding_witness:
  "consume_runs decoder_tol0 [(0, 9)] = ([DecodedBit 0 0 9 None True], [])
   \<and> consume_runs decoder_tol0 [(0, 4), (4, 5)] = ([DecodedBit 1 0 4 (Some 5) True], [])
   \<and> consume_runs decoder_tol0 [(0, 4), (4, 6)] = ([DecodedBit 1 0 4 (Some 6) False], [])
   \<and> consume_runs decoder_tol0 [(0, 5)] = ([DecodedBit 1 0 5 None False], [])
   \<and> consume_runs decoder_tol0 [(0, 5), (5, 6)]
        = ([], [BitError 0 5 (HalfThenNonHalf 5 6 11), BitError 5 6 (OutsideWindows 6 9 10 4 5)])
   \<and> consume_runs decoder_tol0 [(0, 7)] = ([], [BitError 0 7 (OutsideWindows 7 9 10 4 5)])
   \<and> DecodedBit 0 0 9 None True \<in> set (fst (consume_runs decoder_tol0 [(0, 9), (9, 7)]))
   \<and> BitError 9 7 (OutsideWindows 7 9 10 4 5)
        \<in> set (snd (consume_runs decoder_tol0 [(0, 9), (9, 7)]))
   \<and> (9, 7) \<in> set [(0, 9), (9 :: nat, 7 :: nat)]"
proof -
  note T = tolerance_zero_decoding
  note full = T [THEN conjunct2, THEN conjunct2, THEN conjunct1]
  note half_half = T [THEN conjunct2, THEN conjunct2, THEN conjunct2, THEN conjunct1]
  note half_six = T [THEN conjunct2, THEN conjunct2, THEN conjunct2, THEN conjunct2,
      THEN conjunct1]
  note half_last = T [THEN conjunct2, THEN conjunct2, THEN conjunct2, THEN conjunct2,
      THEN conjunct2, THEN conjunct1]
  note half_error = T [THEN conjunct2, THEN conjunct2, THEN conjunct2, THEN conjunct2,
      THEN conjunct2, THEN conjunct2, THEN conjunct1]
  note outside = T [THEN conjunct2, THEN conjunct2, THEN conjunct2, THEN conjunct2,
      THEN conjunct2, THEN conjunct2, THEN conjunct2, THEN conjunct1]
  note bad = T [THEN conjunct2, THEN conjunct2, THEN conjunct2, THEN conjunct2,
      THEN conjunct2, THEN conjunct2, THEN conjunct2, THEN conjunct2, THEN conjunct2,
      THEN conjunct1]
  note errs = T [THEN conjunct2, THEN conjunct2, THEN conjunct2, THEN conjunct2,
      THEN conjunct2, THEN conjunct2, THEN conjunct2, THEN conjunct2, THEN conjunct2,
      THEN conjunct2]
  have c1: "consume_runs decoder_tol0 [(0, 9)] = ([DecodedBit 0 0 9 None True], [])"
    using full [of 9 0 "[]"] by (simp add: add_bit_def del: consume_runs.simps(2))
  have c2: "consume_runs decoder_tol0 [(0, 4), (4, 5)] = ([DecodedBit 1 0 4 (Some 5) True], [])"
    using half_half [of 4 5 0 4 "[]"] by (simp add: add_bit_def del: consume_runs.simps(2))
  have c3: "consume_runs decoder_tol0 [(0, 4), (4, 6)] = ([DecodedBit 1 0 4 (Some 6) False], [])"
    using half_six [of 0 4 "[]"] by (simp add: add_bit_def del: consume_runs.simps(2))
  have c4: "consume_runs decoder_tol0 [(0, 5)] = ([DecodedBit 1 0 5 None False], [])"
    using half_last [of 5 0] by (simp del: consume_runs.simps(2))
  have c5a: "consume_runs decoder_tol0 [(5, 6)] = ([], [BitError 5 6 (OutsideWindows 6 9 10 4 5)])"
    using outside [of 6 5 "[]"] by (simp add: add_error_def del: consume_runs.simps(2))
  have c5: "consume_runs decoder_tol0 [(0, 5), (5, 6)]
        = ([], [BitError 0 5 (HalfThenNonHalf 5 6 11), BitError 5 6 (OutsideWindows 6 9 10 4 5)])"
    using half_error [of 5 6 0 5 "[]"] c5a
    by (simp add: add_error_def del: consume_runs.simps(2))
  have c6: "consume_runs decoder_tol0 [(0, 7)] = ([], [BitError 0 7 (OutsideWindows 7 9 10 4 5)])"
    using outside [of 7 0 "[]"] by (simp add: add_error_def del: consume_runs.simps(2))
  have c7a: "consume_runs decoder_tol0 [(9, 7)] = ([], [BitError 9 7 (OutsideWindows 7 9 10 4 5)])"
    using outside [of 7 9 "[]"] by (simp add: add_error_def del: consume_runs.simps(2))
  have c7: "DecodedBit 0 0 9 None True \<in> set (fst (consume_runs decoder_tol0 [(0, 9), (9, 7)]))"
    using full [of 9 0 "[(9, 7)]"] c7a by (simp add: add_bit_def del: consume_runs.simps(2))
  have c8: "BitError 9 7 (OutsideWindows 7 9 10 4 5)
        \<in> set (snd (consume_runs decoder_tol0 [(0, 9), (9, 7)]))"
    using bad [of "[(0, 9), (9, 7)]"] by (simp del: consume_runs.simps(2))
  have c9: "(9, 7) \<in> set [(0, 9), (9 :: nat, 7 :: nat)]"
    using errs [of "[(0, 9), (9, 7)]"] c8 by (simp del: consume_runs.simps(2))
  show ?thesis
    using c1 c2 c3 c4 c5 c6 c7 c8 c9 by (simp del: consume_runs.simps(2))
qed

text \<open>
  C6 as stated fails, in two ways. A run of 10 samples is accepted as bit 0, and 10 is
  neither a nominal length of the decoder (9.1875, 4.59375) nor a run length of the
  encoder. A run of 6 samples after a run of 4 is accepted as the second half of a bit 1
  and gives no decode error, and 6 is in neither window.
\<close>

theorem tolerance_zero_counterexample:
  "BMCDecoder_init SAMPLE_RATE BAUD_RATE 0 200 = Inr decoder_tol0
   \<and> decode decoder_tol0 (replicate 10 BMC_HIGH) = ([DecodedBit 0 0 10 None True], [])
   \<and> of_nat 10 \<noteq> nom_full decoder_tol0 \<and> of_nat 10 \<noteq> nom_half decoder_tol0
   \<and> 10 \<notin> {SAMPLES_PER_BIT, BMC_HALF_A, BMC_HALF_B}
   \<and> decode decoder_tol0 (replicate 4 BMC_HIGH @ replicate 6 BMC_LOW)
        = ([DecodedBit 1 0 4 (Some 6) False], [])
   \<and> \<not> is_full decoder_tol0 6 \<and> \<not> is_half decoder_tol0 6"
proof -
  have r: "run_lengths_from 200 0 (replicate 4 BMC_HIGH @ replicate 6 BMC_LOW) = [(0, 4), (4, 6)]"
    using run_lengths_replicate_append [of 4 BMC_HIGH "replicate 6 BMC_LOW" 0]
      run_lengths_replicate_append [of 6 BMC_LOW "[]" 4]
    by (simp add: flip_def BMC_HIGH_def BMC_LOW_def)
  have d: "decode decoder_tol0 (replicate 4 BMC_HIGH @ replicate 6 BMC_LOW)
        = ([DecodedBit 1 0 4 (Some 6) False], [])"
    unfolding decode_def run_lengths_def tol0_fields r tol0_half_six
    by (simp add: add_bit_def)
  have a: "BMCDecoder_init SAMPLE_RATE BAUD_RATE 0 200 = Inr decoder_tol0
   \<and> decode decoder_tol0 (replicate 10 BMC_HIGH) = ([DecodedBit 0 0 10 None True], [])
   \<and> of_nat 10 \<noteq> nom_full decoder_tol0 \<and> of_nat 10 \<noteq> nom_half decoder_tol0
   \<and> 10 \<notin> {SAMPLES_PER_BIT, BMC_HALF_A, BMC_HALF_B}"
    by (simp add: decoder_tol0_init decode_def run_lengths_def decoder_tol0_eq
        run_lengths_single_run is_full_def add_bit_def
        SAMPLES_PER_BIT_eq BMC_HALF_A_eq BMC_HALF_B_eq)
  show ?thesis
    using a d by (simp add: tol0_is_full tol0_is_half)
qed


section \<open>Properties of the frame scheduler\<close>

lemma frame_bits_pos: "0 < frame_bits t"
  by (cases t) (simp_all add: frame_bits_def TD_FRAME_BITS_def BD_FRAME_BITS_def)




lemma blank_bits_range: "b \<in> blank_bits t \<Longrightarrow> 1 \<le> b \<and> b \<le> frame_bits t"
  by (cases t)
     (auto simp: blank_bits_def frame_bits_def TD_BLANK_BITS_def BD_BLANK_BITS_def
        TD_FRAME_BITS_def BD_FRAME_BITS_def)

lemma blanks_zero_zeros: "blanks_zero t (replicate (frame_bits t) 0)"
proof -
  have "replicate (frame_bits t) (0 :: int) ! (b - 1) = 0" if "b \<in> blank_bits t" for b
  proof -
    have "b - 1 < frame_bits t"
      using blank_bits_range [OF that] by arith
    then show ?thesis by simp
  qed
  then show ?thesis by (simp add: blanks_zero_def)
qed



lemma encode_bits_levels:
  "s \<in> set (fst (encode_bits l bs)) \<Longrightarrow> s = BMC_HIGH \<or> s = BMC_LOW"
proof (induction bs arbitrary: l)
  case Nil
  then show ?case by simp
next
  case (Cons b bs)
  have s1: "set (fst (encode_bit l b)) \<subseteq> {BMC_HIGH, BMC_LOW}"
    using flip_levels [of l] flip_levels [of "flip l"] by (auto simp: encode_bit_eq)
  have "fst (encode_bits l (b # bs))
          = fst (encode_bit l b) @ fst (encode_bits (snd (encode_bit l b)) bs)"
    by (simp split: prod.splits)
  then show ?case
    using s1 Cons.IH [of "snd (encode_bit l b)"] Cons.prems by auto
qed

lemma to_raw_bytes_encode:
  "to_raw_bytes (fst (encode_bits l bs)) = Inr (pcm_bytes (fst (encode_bits l bs)))"
proof -
  have "- 32768 \<le> s \<and> s \<le> 32767" if "s \<in> set (fst (encode_bits l bs))" for s
    using encode_bits_levels [OF that] by (auto simp: BMC_HIGH_def BMC_LOW_def)
  then show ?thesis
    by (simp add: to_raw_bytes_def)
qed






subsection \<open>The output buffer\<close>

lemma frame_samps_eq: "frame_samps t = 9 * frame_bits t"
  by (cases t)
     (simp_all add: frame_samps_def frame_bits_def TD_FRAME_SAMPLES_def BD_FRAME_SAMPLES_def
        SAMPLES_PER_BIT_eq)

lemma encode_bits_Cons:
  "encode_bits l (b # bs)
     = (fst (encode_bit l b) @ fst (encode_bits (snd (encode_bit l b)) bs),
        snd (encode_bits (snd (encode_bit l b)) bs))"
  by (simp split: prod.splits)

lemma length_encode_bit: "length (fst (encode_bit l b)) = 9"
  by (simp add: encode_bit_eq)

lemma length_encode_bits: "length (fst (encode_bits l bs)) = 9 * length bs"
  by (induction bs arbitrary: l)
     (simp_all add: encode_bits_Cons length_encode_bit del: encode_bits.simps(2))

lemma length_pcm_bytes: "length (pcm_bytes xs) = 2 * length xs"
  by (induction xs) (simp_all add: pcm_bytes_def pack_h_def)

lemma pcm_bytes_append: "pcm_bytes (xs @ ys) = pcm_bytes xs @ pcm_bytes ys"
  by (simp add: pcm_bytes_def)

lemma take_pcm_bytes: "take (k * 2) (pcm_bytes xs) = pcm_bytes (take k xs)"
proof (induction xs arbitrary: k)
  case Nil
  then show ?case by (simp add: pcm_bytes_def)
next
  case (Cons x xs)
  show ?case
  proof (cases k)
    case 0
    then show ?thesis by (simp add: pcm_bytes_def)
  next
    case (Suc j)
    then show ?thesis
      using Cons.IH [of j] by (simp add: pcm_bytes_def pack_h_def)
  qed
qed

lemma pack_h_levels:
  "pack_h BMC_HIGH = [255, 127]" "pack_h BMC_LOW = [0, 128]"
  by (simp_all add: pack_h_def BMC_HIGH_def BMC_LOW_def)

lemma pcm_bytes_inj:
  assumes "\<forall>x \<in> set xs. x = BMC_HIGH \<or> x = BMC_LOW"
    and "\<forall>y \<in> set ys. y = BMC_HIGH \<or> y = BMC_LOW"
    and "pcm_bytes xs = pcm_bytes ys"
  shows "xs = ys"
  using assms
proof (induction xs arbitrary: ys)
  case Nil
  then show ?case
    using length_pcm_bytes [of ys] by (cases ys) (simp_all add: pcm_bytes_def pack_h_def)
next
  case (Cons x xs)
  obtain y ys' where ys: "ys = y # ys'"
    using Cons.prems(3) length_pcm_bytes [of ys] length_pcm_bytes [of "x # xs"]
    by (cases ys) auto
  have eq: "pack_h x @ pcm_bytes xs = pack_h y @ pcm_bytes ys'"
    using Cons.prems(3) by (simp add: ys pcm_bytes_def)
  have lx: "x = BMC_HIGH \<or> x = BMC_LOW" and ly: "y = BMC_HIGH \<or> y = BMC_LOW"
    using Cons.prems(1,2) ys by auto
  have "x = y \<and> pcm_bytes xs = pcm_bytes ys'"
    using eq lx ly by (auto simp: pack_h_levels)
  then show ?case
    using Cons.IH [of ys'] Cons.prems(1,2) ys by auto
qed

lemma slice_assign_inside:
  "s \<le> e \<Longrightarrow> e \<le> length out \<Longrightarrow> slice_assign out s e data = take s out @ data @ drop e out"
  by (simp add: slice_assign_def Let_def min_def max_def)

lemma fill_loop_done: "\<not> pos < e \<Longrightarrow> fill_loop t f e st pos = Inr st"
  by (simp add: fill_loop.simps [of t f e st pos])

lemma fill_loop_step:
  assumes "pos < e"
  shows "fill_loop t f e st pos
    = fill_loop t f e
        \<lparr> out_buf = slice_assign (out_buf st) (pos * 2)
                      (pos * 2 + min (frame_samps t) (e - pos) * 2)
                      (take (min (frame_samps t) (e - pos) * 2)
                         (pcm_bytes (fst (encode_bits (enc_level st) f)))),
          enc_level = snd (encode_bits (enc_level st) f),
          encoded = encoded st @ [f] \<rparr>
        (pos + min (frame_samps t) (e - pos))"
proof -
  obtain E l2 where enc: "encode_bits (enc_level st) f = (E, l2)"
    by (cases "encode_bits (enc_level st) f")
  have raw: "to_raw_bytes E = Inr (pcm_bytes E)"
    using to_raw_bytes_encode [of "enc_level st" f] enc by simp
  show ?thesis
    using assms
    by (simp add: fill_loop.simps [of t f e st pos] encode_frame_def enc raw Let_def)
qed

text \<open>
  One round of the fill loop on a buffer whose first \<open>pos\<close> samples are written: \<open>w\<close>
  samples of the encoding of the frame replace the next \<open>w\<close> samples of the buffer.
\<close>

lemma fill_loop_round:
  assumes "pos < e" and "length f = frame_bits t"
    and "out_buf st = pcm_bytes P @ R" and "length P = pos"
    and "w = min (frame_samps t) (e - pos)" and "w * 2 \<le> length R"
  shows "fill_loop t f e st pos
    = fill_loop t f e
        \<lparr> out_buf = pcm_bytes (P @ take w (fst (encode_bits (enc_level st) f))) @ drop (w * 2) R,
          enc_level = snd (encode_bits (enc_level st) f),
          encoded = encoded st @ [f] \<rparr>
        (pos + w)"
proof -
  have lp: "length (pcm_bytes P) = pos * 2"
    using assms(4) by (simp add: length_pcm_bytes)
  have "slice_assign (pcm_bytes P @ R) (pos * 2) (pos * 2 + w * 2) data
          = pcm_bytes P @ data @ drop (w * 2) R" for data
    using assms(6) lp by (simp add: slice_assign_inside)
  then show ?thesis
    unfolding fill_loop_step [OF assms(1)] assms(3) assms(5) [symmetric]
    by (simp add: take_pcm_bytes pcm_bytes_append)
qed

subsection \<open>The two schedulers and the structure of an encoding\<close>

lemma xb_encode_bit_eq: "xb_encode_bit l b = encode_bit l b"
  by (simp add: xb_encode_bit_def encode_bit_eq flip_def BMC_HIGH_def BMC_LOW_def Let_def)

lemma xb_encode_frame_eq: "xb_encode_frame l bs = encode_bits l bs"
  by (induction bs arbitrary: l) (simp_all add: xb_encode_bit_eq)

lemma xb_frame_samps_eq: "xb_frame_samps t = frame_samps t"
  by (simp add: xb_frame_samps_def frame_samps_eq)

lemma xb_total_samples_eq: "xb_total_samples t n = total_samples t n"
  by (simp add: xb_total_samples_def total_samples_def xb_frame_samps_eq Let_def)

lemma xb_fill_loop_eq: "xb_fill_loop t f e st pos = fill_loop t f e st pos"
proof (induction t f e st pos rule: fill_loop.induct)
  case (1 t frame end_sample st pos)
  show ?case
  proof (cases "pos < end_sample")
    case False
    then show ?thesis
      by (simp add: fill_loop.simps [of t frame end_sample st pos]
            xb_fill_loop.simps [of t frame end_sample st pos])
  next
    case True
    obtain E l2 where enc: "encode_bits (enc_level st) frame = (E, l2)"
      by (cases "encode_bits (enc_level st) frame")
    have raw: "to_raw_bytes E = Inr (pcm_bytes E)"
      using to_raw_bytes_encode [of "enc_level st" frame] enc by simp
    let ?w = "min (frame_samps t) (end_sample - pos)"
    let ?st = "\<lparr> out_buf = slice_assign (out_buf st) (pos * 2) (pos * 2 + ?w * 2)
                         (take (?w * 2) (pcm_bytes E)),
                 enc_level = l2, encoded = encoded st @ [frame] \<rparr>"
    have encf: "encode_frame (enc_level st) frame = (E, l2)"
      by (simp add: encode_frame_def enc)
    have ih: "xb_fill_loop t frame end_sample ?st (pos + ?w)
                = fill_loop t frame end_sample ?st (pos + ?w)"
      by (rule "1.IH" [OF True encf [symmetric] refl raw refl refl refl refl refl])
    show ?thesis
      using True ih
      by (simp add: fill_loop.simps [of t frame end_sample st pos]
            xb_fill_loop.simps [of t frame end_sample st pos]
            encode_frame_def xb_encode_frame_eq xb_frame_samps_eq enc raw Let_def)
  qed
qed

lemma xb_fill_eq: "xb_fill t f st s e = fill_frames t f st s e"
  by (simp add: xb_fill_def fill_frames_def xb_fill_loop_eq)

text \<open>The levels of a run of 0 bits.\<close>

lemma flip_flip: "l = BMC_HIGH \<or> l = BMC_LOW \<Longrightarrow> flip (flip l) = l"
  by (auto simp: flip_def BMC_HIGH_def BMC_LOW_def)

lemma funpow_flip:
  "l = BMC_HIGH \<or> l = BMC_LOW \<Longrightarrow> (flip ^^ n) l = (if even n then l else flip l)"
  by (induction n) (auto simp: flip_flip)

lemma encode_zeros_level: "snd (encode_bits l (replicate n 0)) = (flip ^^ n) l"
  by (induction n arbitrary: l)
     (simp_all add: encode_bits_Cons encode_bit_eq funpow_swap1 del: encode_bits.simps(2))

lemma encode_zeros_nth:
  "i < 9 * n \<Longrightarrow> fst (encode_bits l (replicate n 0)) ! i = (flip ^^ Suc (i div 9)) l"
proof (induction n arbitrary: l i)
  case 0
  then show ?case by simp
next
  case (Suc n)
  have enc: "fst (encode_bits l (replicate (Suc n) 0))
               = replicate 9 (flip l) @ fst (encode_bits (flip l) (replicate n 0))"
    by (simp add: encode_bits_Cons encode_bit_eq del: encode_bits.simps(2))
  show ?case
  proof (cases "i < 9")
    case True
    then show ?thesis unfolding enc by (simp add: nth_append)
  next
    case False
    then have i9: "i - 9 < 9 * n"
      using Suc.prems by simp
    have d: "i div 9 = Suc ((i - 9) div 9)"
      using False by (simp add: le_div_geq)
    have "fst (encode_bits l (replicate (Suc n) 0)) ! i
            = fst (encode_bits (flip l) (replicate n 0)) ! (i - 9)"
      unfolding enc using False by (simp add: nth_append)
    also have "\<dots> = (flip ^^ Suc ((i - 9) div 9)) (flip l)"
      by (rule Suc.IH [OF i9])
    also have "\<dots> = (flip ^^ Suc (i div 9)) l"
      unfolding d by (simp add: funpow_swap1)
    finally show ?thesis .
  qed
qed

text \<open>Two successive bits of an encoding never meet at the same level.\<close>

lemma encode_bit_last: "last (fst (encode_bit l b)) = snd (encode_bit l b)"
  by (simp add: encode_bit_eq)

lemma encode_bits_boundary:
  "Suc k < length bs \<Longrightarrow>
   fst (encode_bits l bs) ! (9 * k + 8) \<noteq> fst (encode_bits l bs) ! (9 * Suc k)"
proof (induction bs arbitrary: l k)
  case Nil
  then show ?case by simp
next
  case (Cons b bs)
  let ?s = "fst (encode_bit l b)"
  let ?l1 = "snd (encode_bit l b)"
  let ?rest = "fst (encode_bits ?l1 bs)"
  have enc: "fst (encode_bits l (b # bs)) = ?s @ ?rest"
    by (simp add: encode_bits_Cons del: encode_bits.simps(2))
  have ls: "length ?s = 9" by (rule length_encode_bit)
  show ?case
  proof (cases k)
    case 0
    have ne: "bs \<noteq> []" using Cons.prems 0 by auto
    have "?s \<noteq> []" using ls by auto
    then have "?s ! 8 = last ?s"
      using ls by (simp add: last_conv_nth)
    then have a: "(?s @ ?rest) ! 8 = ?l1"
      using ls by (simp add: nth_append encode_bit_last)
    have "(?s @ ?rest) ! 9 = ?rest ! 0"
      using ls by (simp add: nth_append)
    also have "\<dots> = hd ?rest"
      using encode_bits_hd [OF ne, of ?l1] by (metis hd_conv_nth)
    also have "\<dots> = flip ?l1"
      using encode_bits_hd [OF ne, of ?l1] by blast
    finally have b: "(?s @ ?rest) ! 9 = flip ?l1" .
    show ?thesis
      unfolding enc 0 using a b flip_neq [of ?l1] by simp
  next
    case (Suc j)
    have "Suc j < length bs" using Cons.prems Suc by simp
    from Cons.IH [OF this, of ?l1]
    have "?rest ! (9 * j + 8) \<noteq> ?rest ! (9 * Suc j)" .
    moreover have "(?s @ ?rest) ! (9 * k + 8) = ?rest ! (9 * j + 8)"
      using ls by (simp add: nth_append Suc add.commute)
    moreover have "(?s @ ?rest) ! (9 * Suc k) = ?rest ! (9 * Suc j)"
      using ls by (simp add: nth_append Suc add.commute)
    ultimately show ?thesis unfolding enc by simp
  qed
qed

subsection \<open>An event in the middle of a frame\<close>

lemma TD_sizes: "frame_bits TD = 94" "frame_samps TD = 846" "total_samples TD 882 = 1692"
  by (simp_all add: frame_samps_eq frame_bits_def TD_FRAME_BITS_def total_samples_def Let_def)

lemma clear_all_TD: "clear_all TD = replicate 94 0"
  by (simp add: clear_all_def TD_sizes)

lemma replicate_94: "replicate 94 x = x # replicate 93 x"
proof -
  have "(94 :: nat) = Suc 93" by simp
  then show ?thesis by (simp only: replicate_Suc)
qed

lemma set_mouth: "set_channel TD (replicate 94 0) ''rolfe_mouth'' True = Inr frame_mouth"
proof -
  have m: "map_of (channel_map TD) ''rolfe_mouth'' = Some 1"
    by (simp add: channel_map_def TD_CHANNELS_def)
  have b: "(1 :: nat) \<notin> blank_bits TD"
    by (simp add: blank_bits_def TD_BLANK_BITS_def)
  have "(replicate 94 (0 :: int))[0 := 1] = frame_mouth"
    unfolding replicate_94 frame_mouth_def by simp
  then show ?thesis
    using b by (simp add: set_channel_def m Let_def)
qed

lemma length_frame_mouth: "length frame_mouth = 94"
  by (simp add: frame_mouth_def)

lemma level_after_zero_frame: "snd (encode_bits BMC_LOW (replicate 94 0)) = BMC_LOW"
  by (simp add: encode_zeros_level funpow_flip)

text \<open>
  The output of \<open>FrameBuilder.build\<close> for the event in mid-frame: 441 samples of the
  encoding of the empty frame, then the encoding of the new frame from its start.
\<close>

lemma build_mid_frame:
  "build TD [ev_mid_frame] 882
     = Inr (pcm_bytes
         (take 441 (fst (encode_bits BMC_LOW (replicate 94 0)))
          @ fst (encode_bits BMC_LOW frame_mouth)
          @ take 405 (fst (encode_bits (snd (encode_bits BMC_LOW frame_mouth)) frame_mouth))))"
proof -
  let ?Z = "replicate 94 (0 :: int)"
  let ?E0 = "fst (encode_bits BMC_LOW ?Z)"
  let ?E1 = "fst (encode_bits BMC_LOW frame_mouth)"
  let ?L2 = "snd (encode_bits BMC_LOW frame_mouth)"
  let ?E2 = "fst (encode_bits ?L2 frame_mouth)"
  let ?st0 = "\<lparr> out_buf = replicate 3384 (0 :: byte), enc_level = BMC_LOW, encoded = [] \<rparr>"
  let ?st1 = "\<lparr> out_buf = pcm_bytes (take 441 ?E0) @ replicate 2502 (0 :: byte),
                 enc_level = BMC_LOW, encoded = [?Z] \<rparr>"
  let ?st2 = "\<lparr> out_buf = pcm_bytes (take 441 ?E0 @ ?E1) @ replicate 810 (0 :: byte),
                 enc_level = ?L2, encoded = [?Z, frame_mouth] \<rparr>"
  let ?st3 = "\<lparr> out_buf = pcm_bytes (take 441 ?E0 @ ?E1 @ take 405 ?E2),
                 enc_level = snd (encode_bits ?L2 frame_mouth),
                 encoded = [?Z, frame_mouth, frame_mouth] \<rparr>"
  have r1: "fill_loop TD ?Z 441 ?st0 0 = fill_loop TD ?Z 441 ?st1 441"
    using fill_loop_round [of 0 441 ?Z TD ?st0 "[]" "replicate 3384 0" 441]
    by (simp add: TD_sizes pcm_bytes_def level_after_zero_frame)
  have f1: "fill_frames TD ?Z ?st0 0 441 = Inr ?st1"
    by (simp add: fill_frames_def r1 fill_loop_done)
  have len0: "length (take 441 ?E0) = 441"
    by (simp add: length_encode_bits)
  have l1: "length ?E1 = 846"
    by (simp add: length_encode_bits length_frame_mouth)
  have r2: "fill_loop TD frame_mouth 1692 ?st1 441 = fill_loop TD frame_mouth 1692 ?st2 1287"
    using fill_loop_round [of 441 1692 frame_mouth TD ?st1 "take 441 ?E0"
        "replicate 2502 0" 846] len0 l1
    by (simp add: TD_sizes length_frame_mouth)
  have len1: "length (take 441 ?E0 @ ?E1) = 1287"
    using len0 l1 by simp
  have r3: "fill_loop TD frame_mouth 1692 ?st2 1287 = fill_loop TD frame_mouth 1692 ?st3 1692"
    using fill_loop_round [of 1287 1692 frame_mouth TD ?st2 "take 441 ?E0 @ ?E1"
        "replicate 810 0" 405] len1
    by (simp add: TD_sizes length_frame_mouth)
  have f2: "fill_frames TD frame_mouth ?st1 441 1692 = Inr ?st3"
    by (simp add: fill_frames_def r2 r3 fill_loop_done)
  have "build_run TD [ev_mid_frame] 882 = Inr ?st3"
    by (simp add: build_run_def Let_def clear_all_TD TD_sizes ev_mid_frame_def f1 set_mouth f2)
  then show ?thesis
    by (simp add: build_def)
qed

text \<open>
  The output of the export bridge's \<open>_FrameBuilder.build\<close> for the same input: the
  event is snapped to sample 0, and both frames are whole encodings of the new frame.
\<close>

lemma xb_build_mid_frame:
  "xb_build TD [ev_mid_frame] 882
     = Inr (pcm_bytes
         (fst (encode_bits BMC_LOW frame_mouth)
          @ fst (encode_bits (snd (encode_bits BMC_LOW frame_mouth)) frame_mouth)))"
proof -
  let ?E1 = "fst (encode_bits BMC_LOW frame_mouth)"
  let ?L2 = "snd (encode_bits BMC_LOW frame_mouth)"
  let ?E2 = "fst (encode_bits ?L2 frame_mouth)"
  let ?st0 = "\<lparr> out_buf = replicate 3384 (0 :: byte), enc_level = BMC_LOW, encoded = [] \<rparr>"
  let ?st1 = "\<lparr> out_buf = pcm_bytes ?E1 @ replicate 1692 (0 :: byte),
                 enc_level = ?L2, encoded = [frame_mouth] \<rparr>"
  let ?st2 = "\<lparr> out_buf = pcm_bytes (?E1 @ ?E2),
                 enc_level = snd (encode_bits ?L2 frame_mouth),
                 encoded = [frame_mouth, frame_mouth] \<rparr>"
  have l1: "length ?E1 = 846" and l2: "length ?E2 = 846"
    by (simp_all add: length_encode_bits length_frame_mouth)
  have r1: "fill_loop TD frame_mouth 1692 ?st0 0 = fill_loop TD frame_mouth 1692 ?st1 846"
    using fill_loop_round [of 0 1692 frame_mouth TD ?st0 "[]" "replicate 3384 0" 846] l1
    by (simp add: TD_sizes length_frame_mouth pcm_bytes_def)
  have r2: "fill_loop TD frame_mouth 1692 ?st1 846 = fill_loop TD frame_mouth 1692 ?st2 1692"
    using fill_loop_round [of 846 1692 frame_mouth TD ?st1 ?E1 "replicate 1692 0" 846] l1 l2
    by (simp add: TD_sizes length_frame_mouth)
  have f: "fill_frames TD frame_mouth ?st0 0 1692 = Inr ?st2"
    by (simp add: fill_frames_def r1 r2 fill_loop_done)
  have "xb_build_run TD [ev_mid_frame] 882 = Inr ?st2"
    by (simp add: xb_build_run_def Let_def clear_all_TD xb_total_samples_eq TD_sizes
          ev_mid_frame_def xb_frame_samps_eq set_mouth xb_fill_eq f BMC_LOW_def [symmetric])
  then show ?thesis
    by (simp add: xb_build_def)
qed

lemma encode_mouth_prefix:
  "fst (encode_bits l frame_mouth)
     = replicate 4 (flip l) @ replicate 5 (flip (flip l))
       @ fst (encode_bits (flip (flip l)) (replicate 93 0))"
  by (simp add: frame_mouth_def encode_bits_Cons encode_bit_eq split: prod.splits)

lemma torn_window_not_a_frame:
  "take 441 (fst (encode_bits BMC_LOW (replicate 94 0)))
     @ take 405 (fst (encode_bits BMC_LOW frame_mouth))
   \<noteq> fst (encode_frame l f)"
proof
  let ?E0 = "fst (encode_bits BMC_LOW (replicate 94 0))"
  let ?E1 = "fst (encode_bits BMC_LOW frame_mouth)"
  let ?W = "take 441 ?E0 @ take 405 ?E1"
  assume eq: "?W = fst (encode_frame l f)"
  have lenW: "length ?W = 846"
    by (simp add: length_encode_bits length_frame_mouth)
  have "length (fst (encode_frame l f)) = 9 * length f"
    by (simp add: encode_frame_def length_encode_bits)
  with eq lenW have lf: "length f = 94" by simp
  have a: "?W ! 440 = BMC_HIGH"
  proof -
    have "?W ! 440 = ?E0 ! 440"
      by (simp add: nth_append length_encode_bits)
    also have "\<dots> = (flip ^^ Suc (440 div 9)) BMC_LOW"
      by (rule encode_zeros_nth) simp
    also have "\<dots> = BMC_HIGH"
      by (simp add: funpow_flip flip_def BMC_LOW_def BMC_HIGH_def del: funpow.simps)
    finally show ?thesis .
  qed
  have b: "?W ! 441 = BMC_HIGH"
  proof -
    have "?W ! 441 = take 405 ?E1 ! 0"
      by (simp add: nth_append length_encode_bits)
    also have "\<dots> = BMC_HIGH"
      unfolding encode_mouth_prefix
      by (simp add: flip_def BMC_LOW_def BMC_HIGH_def nth_append eval_nat_numeral)
    finally show ?thesis .
  qed
  have "fst (encode_bits l f) ! (9 * 48 + 8) \<noteq> fst (encode_bits l f) ! (9 * Suc 48)"
    by (rule encode_bits_boundary) (simp add: lf)
  then have "?W ! 440 \<noteq> ?W ! 441"
    using eq by (simp add: encode_frame_def)
  with a b show False by simp
qed

lemma sample_4_differs:
  "(take 441 (fst (encode_bits BMC_LOW (replicate 94 0))) @ A) ! 4
     \<noteq> (fst (encode_bits BMC_LOW frame_mouth) @ B) ! 4"
proof -
  have "(take 441 (fst (encode_bits BMC_LOW (replicate 94 0))) @ A) ! 4
          = fst (encode_bits BMC_LOW (replicate 94 0)) ! 4"
    by (simp add: nth_append length_encode_bits)
  also have "\<dots> = (flip ^^ Suc (4 div 9)) BMC_LOW"
    by (rule encode_zeros_nth) simp
  also have "\<dots> = BMC_HIGH"
    by (simp add: flip_def BMC_LOW_def BMC_HIGH_def)
  finally have a: "(take 441 (fst (encode_bits BMC_LOW (replicate 94 0))) @ A) ! 4 = BMC_HIGH" .
  have b: "(fst (encode_bits BMC_LOW frame_mouth) @ B) ! 4 = BMC_LOW"
    unfolding encode_mouth_prefix
    by (simp add: flip_def BMC_LOW_def BMC_HIGH_def nth_append eval_nat_numeral)
  show ?thesis
    unfolding a b by (simp add: BMC_LOW_def BMC_HIGH_def)
qed

lemma levels_append:
  "\<forall>x \<in> set (take a (fst (encode_bits l bs)) @ take b (fst (encode_bits l' bs'))).
     x = BMC_HIGH \<or> x = BMC_LOW"
  using encode_bits_levels by (auto dest!: in_set_takeD)

lemma levels_append3:
  "\<forall>x \<in> set (take a (fst (encode_bits l bs)) @ fst (encode_bits l' bs')
               @ take c (fst (encode_bits l'' bs''))).
     x = BMC_HIGH \<or> x = BMC_LOW"
  using encode_bits_levels by (auto dest!: in_set_takeD)

lemma levels_append2:
  "\<forall>x \<in> set (fst (encode_bits l bs) @ fst (encode_bits l' bs')).
     x = BMC_HIGH \<or> x = BMC_LOW"
  using encode_bits_levels by auto

lemma levels_frame: "\<forall>x \<in> set (fst (encode_frame l f)). x = BMC_HIGH \<or> x = BMC_LOW"
  using encode_bits_levels by (auto simp: encode_frame_def)

lemma first_window_mid_frame:
  "take (2 * frame_samps TD)
     (pcm_bytes
        (take 441 (fst (encode_bits BMC_LOW (replicate 94 0)))
         @ fst (encode_bits BMC_LOW frame_mouth)
         @ take 405 (fst (encode_bits (snd (encode_bits BMC_LOW frame_mouth)) frame_mouth))))
   = pcm_bytes
       (take 441 (fst (encode_bits BMC_LOW (replicate 94 0)))
        @ take 405 (fst (encode_bits BMC_LOW frame_mouth)))"
proof -
  have "2 * frame_samps TD = 846 * 2"
    by (simp add: TD_sizes)
  then show ?thesis
    by (simp only: take_pcm_bytes) (simp add: length_encode_bits length_frame_mouth)
qed

text \<open>Events on frame boundaries: there the two schedulers do the same.\<close>

lemma build_events_aligned:
  assumes "\<forall>e \<in> set evs. frame_samps t dvd ev_sample e"
    and "\<forall>e \<in> set evs. cursor \<le> ev_sample e"
    and "sorted (map ev_sample evs)"
  shows "xb_build_events t evs frame st cursor = build_events t evs frame st cursor"
  using assms
proof (induction evs arbitrary: frame st cursor)
  case Nil
  then show ?case by simp
next
  case (Cons ev evs)
  have snap: "(ev_sample ev div frame_samps t) * frame_samps t = ev_sample ev"
    using Cons.prems(1) by simp
  have le: "cursor \<le> ev_sample ev"
    using Cons.prems(2) by simp
  have nxt: "\<forall>e \<in> set evs. ev_sample ev \<le> ev_sample e"
    using Cons.prems(3) by simp
  have IH: "xb_build_events t evs f s (ev_sample ev) = build_events t evs f s (ev_sample ev)"
    for f s
    using Cons.IH [of "ev_sample ev" f s] Cons.prems(1,3) nxt by simp
  show ?case
  proof (cases "ev_sample ev \<le> cursor")
    case True
    with le have eq: "ev_sample ev = cursor" by simp
    have "fill_frames t frame st cursor cursor = Inr st"
      by (simp add: fill_frames_def)
    then show ?thesis
      using IH eq by (simp add: Let_def xb_frame_samps_eq snap split: sum.splits)
  next
    case False
    then show ?thesis
      using IH by (simp add: Let_def xb_frame_samps_eq snap xb_fill_eq split: sum.splits)
  qed
qed

lemma builders_agree_on_aligned_events:
  assumes "\<forall>e \<in> set events. frame_samps t dvd ev_sample e"
  shows "xb_build t events n = build t events n"
proof -
  have "xb_build_events t (sort_key ev_sample events) f s 0
          = build_events t (sort_key ev_sample events) f s 0" for f s
    using assms by (intro build_events_aligned) simp_all
  then show ?thesis
    by (simp add: xb_build_def build_def xb_build_run_def build_run_def Let_def
          xb_total_samples_eq xb_fill_eq BMC_LOW_def split: sum.splits prod.splits)
qed

text \<open>
  C2, where the code departs from it. \<open>FrameBuilder.build\<close> of \<open>frame_builder.py\<close>
  does not snap an event to the frame boundary: it fills up to the event's own sample and
  starts the next frame there. For the TD track, the single event \<open>rolfe_mouth\<close> on at
  sample 441 and a duration of 882 samples, the call returns two frames of PCM, and the
  first aligned window of \<open>frame_samps\<close> samples is not the encoding of any frame state,
  from any encoder level: it is 441 samples of the empty frame followed by the first 405
  samples of the updated frame.
\<close>

theorem build_tears_frame_at_mid_frame_event:
  "\<exists>out. build TD [ev_mid_frame] 882 = Inr out
      \<and> length out = 2 * (2 * frame_samps TD)
      \<and> (\<forall>level frame.
            pcm_bytes (fst (encode_frame level frame)) \<noteq> take (2 * frame_samps TD) out)"
proof -
  let ?E0 = "fst (encode_bits BMC_LOW (replicate 94 0))"
  let ?E1 = "fst (encode_bits BMC_LOW frame_mouth)"
  let ?E2 = "fst (encode_bits (snd (encode_bits BMC_LOW frame_mouth)) frame_mouth)"
  let ?out = "pcm_bytes (take 441 ?E0 @ ?E1 @ take 405 ?E2)"
  have len: "length ?out = 2 * (2 * frame_samps TD)"
    by (simp add: length_pcm_bytes length_encode_bits length_frame_mouth TD_sizes)
  have torn: "pcm_bytes (fst (encode_frame level frame)) \<noteq> take (2 * frame_samps TD) ?out"
    for level frame
  proof
    assume "pcm_bytes (fst (encode_frame level frame)) = take (2 * frame_samps TD) ?out"
    then have "pcm_bytes (take 441 ?E0 @ take 405 ?E1)
                 = pcm_bytes (fst (encode_frame level frame))"
      by (simp only: first_window_mid_frame)
    then have "take 441 ?E0 @ take 405 ?E1 = fst (encode_frame level frame)"
      by (rule pcm_bytes_inj [OF levels_append levels_frame])
    then show False
      using torn_window_not_a_frame by blast
  qed
  show ?thesis
    using build_mid_frame len torn by blast
qed

text \<open>
  C10, where the code departs from it. The two frame schedulers are not equivalent: on the
  same input (TD track, the valid event \<open>rolfe_mouth\<close> on at sample 441, duration 882
  samples) \<open>FrameBuilder.build\<close> of \<open>frame_builder.py\<close> and \<open>_FrameBuilder.build\<close> of
  \<open>export_bridge.py\<close> return different PCM byte strings; the fifth sample is already
  different.
\<close>

theorem builders_differ_at_mid_frame_event:
  "build TD [ev_mid_frame] 882 \<noteq> xb_build TD [ev_mid_frame] 882"
proof
  let ?E0 = "fst (encode_bits BMC_LOW (replicate 94 0))"
  let ?E1 = "fst (encode_bits BMC_LOW frame_mouth)"
  let ?L2 = "snd (encode_bits BMC_LOW frame_mouth)"
  let ?E2 = "fst (encode_bits ?L2 frame_mouth)"
  assume "build TD [ev_mid_frame] 882 = xb_build TD [ev_mid_frame] 882"
  then have "pcm_bytes (take 441 ?E0 @ ?E1 @ take 405 ?E2) = pcm_bytes (?E1 @ ?E2)"
    by (simp add: build_mid_frame xb_build_mid_frame)
  then have "take 441 ?E0 @ ?E1 @ take 405 ?E2 = ?E1 @ ?E2"
    by (rule pcm_bytes_inj [OF levels_append3 levels_append2])
  then have "(take 441 ?E0 @ ?E1 @ take 405 ?E2) ! 4 = (?E1 @ ?E2) ! 4"
    by simp
  then show False
    using sample_4_differs by blast
qed

section \<open>Properties of the frame synchroniser\<close>

lemma sync_frames_short:
  assumes "length bs \<le> frame_bits t * LOCK_THRESHOLD"
  shows "score (sync_frames bs t m) = 0 \<and> \<not> locked (sync_frames bs t m)
         \<and> lock_offset (sync_frames bs t m) = 0"
proof -
  have "int (length bs) \<le> int (frame_bits t * LOCK_THRESHOLD)"
    using assms by (simp only: of_nat_le_iff)
  then have "nat (min (int m) (int (length bs) - int (frame_bits t * LOCK_THRESHOLD))) = 0"
    by simp
  then show ?thesis
    unfolding sync_frames_def Let_def by (simp add: LOCK_THRESHOLD_def)
qed

lemma length_concat_frames:
  "\<forall>f \<in> set fs. blanks_zero t f \<Longrightarrow> length (concat fs) = length fs * frame_bits t"
  by (induction fs) (auto simp: blanks_zero_def)

text \<open>
  C3, where the code departs from it. For \<open>K\<close> valid frames with \<open>1 \<le> K \<le> 3\<close> the
  search window \<open>range(min(max_search_bits, total - 3 * frame_bits))\<close> is empty, no
  candidate is tried, and \<open>sync_frames\<close> returns score 0 without a lock, where the
  claim has \<open>min(3, K)\<close>, and a lock for \<open>K = 3\<close>.
\<close>

theorem sync_up_to_three_frames_score_zero:
  assumes "\<forall>f \<in> set fs. blanks_zero t f" and "1 \<le> length fs" and "length fs \<le> 3"
  shows "score (sync_frames (concat fs) t m) = 0
         \<and> \<not> locked (sync_frames (concat fs) t m)
         \<and> lock_offset (sync_frames (concat fs) t m) = 0
         \<and> min 3 (length fs) \<noteq> score (sync_frames (concat fs) t m)"
proof -
  have "length (concat fs) \<le> frame_bits t * LOCK_THRESHOLD"
    using assms(3) by (simp add: length_concat_frames [OF assms(1)] LOCK_THRESHOLD_def)
  moreover have "fs \<noteq> []"
    using assms(2) by auto
  ultimately show ?thesis
    using sync_frames_short [of "concat fs" t m] by simp
qed

theorem sync_up_to_three_frames_score_zero_witness:
  "blanks_zero TD (replicate 94 0)
   \<and> score (sync_frames (concat (replicate 3 (replicate 94 0))) TD 500) = 0
   \<and> \<not> locked (sync_frames (concat (replicate 3 (replicate 94 0))) TD 500)
   \<and> lock_offset (sync_frames (concat (replicate 3 (replicate 94 0))) TD 500) = 0"
proof -
  have z: "blanks_zero TD (replicate 94 0)"
    using blanks_zero_zeros [of TD] by (simp add: frame_bits_def TD_FRAME_BITS_def)
  then have v: "\<forall>f \<in> set (replicate 3 (replicate 94 0)). blanks_zero TD f"
    by simp
  from sync_up_to_three_frames_score_zero [OF v, of 500] z show ?thesis
    by simp
qed

text \<open>With four or more valid frames the first candidate is searched and locks.\<close>

lemma blanks_clear_slice:
  assumes "blanks_zero t f" and "bs = pre @ f @ post" and "length pre = s"
  shows "blanks_clear t (py_slice bs s (s + frame_bits t))"
proof -
  have "py_slice bs s (s + frame_bits t) = f"
    using assms by (simp add: py_slice_def blanks_zero_def)
  then show ?thesis
    using assms(1) by (simp add: blanks_clear_def blanks_zero_def blank_indices_def)
qed

lemma sync_frames_locks:
  assumes valid: "\<forall>f \<in> set fs. blanks_zero t f" and len: "4 \<le> length fs"
    and m: "0 < m"
  shows "score (sync_frames (concat fs) t m) = 3 \<and> locked (sync_frames (concat (fs)) t m)
         \<and> lock_offset (sync_frames (concat fs) t m) = 0"
proof -
  obtain f0 f1 f2 f3 rest where fs: "fs = f0 # f1 # f2 # f3 # rest"
    using len by (cases fs; cases "tl fs"; cases "tl (tl fs)"; cases "tl (tl (tl fs))") auto
  let ?n = "frame_bits t"
  let ?bs = "concat fs"
  have l: "length f0 = ?n" "length f1 = ?n" "length f2 = ?n" "length f3 = ?n"
    using valid fs by (auto simp: blanks_zero_def)
  have z: "blanks_zero t f0" "blanks_zero t f1" "blanks_zero t f2"
    using valid fs by auto
  have total: "length ?bs = 4 * ?n + length (concat rest)"
    using l by (simp add: fs)
  have c0: "blanks_clear t (py_slice ?bs 0 (0 + ?n))"
    by (rule blanks_clear_slice [OF z(1), of _ "[]" "f1 @ f2 @ f3 @ concat rest"])
       (simp_all add: fs)
  have c1: "blanks_clear t (py_slice ?bs ?n (?n + ?n))"
    by (rule blanks_clear_slice [OF z(2), of _ "f0" "f2 @ f3 @ concat rest"])
       (simp_all add: fs l)
  have c2: "blanks_clear t (py_slice ?bs (2 * ?n) (2 * ?n + ?n))"
    by (rule blanks_clear_slice [OF z(3), of _ "f0 @ f1" "f3 @ concat rest"])
       (simp_all add: fs l)
  have sc: "score_loop t ?bs 0 [0..<LOCK_THRESHOLD] 0 = 3"
    using c0 c1 c2 total
    by (simp add: LOCK_THRESHOLD_def upt_rec [of 0] upt_rec [of 1] upt_rec [of 2] Let_def
          numeral_3_eq_3 numeral_2_eq_2)
  have se: "0 < nat (min (int m) (int (length ?bs) - int (?n * LOCK_THRESHOLD)))"
    using m total frame_bits_pos [of t] by (simp add: LOCK_THRESHOLD_def)
  then obtain k where k: "nat (min (int m) (int (length ?bs) - int (?n * LOCK_THRESHOLD))) = Suc k"
    by (cases "nat (min (int m) (int (length ?bs) - int (?n * LOCK_THRESHOLD)))") auto
  have "search_loop t ?bs [0..<Suc k] (0, 0) = (0, 3)"
    using sc by (simp add: upt_rec [of 0] LOCK_THRESHOLD_def del: upt_Suc)
  then show ?thesis
    unfolding sync_frames_def Let_def k by (simp add: LOCK_THRESHOLD_def)
qed

section \<open>Properties of the conformance simulator\<close>

lemma sync_locked_iff: "locked (sync_frames bs t m) \<longleftrightarrow> score (sync_frames bs t m) \<ge> 3"
  by (simp add: sync_frames_def Let_def LOCK_THRESHOLD_def split: prod.splits)

lemma run_track_eq:
  assumes "BMCDecoder_init sr BAUD_RATE tol 200 = Inr dec"
  shows "run_track sr tol trk (channels ! ch_map (length channels) trk) st
           = Inr \<lparr> verdict_pass = verdict_pass st
                        \<and> (\<forall>k. \<not> violated dec channels trk k),
                    reasons = reasons st @ track_reasons dec channels trk \<rparr>"
proof -
  have all: "(\<forall>k. \<not> violated dec channels trk k) \<longleftrightarrow>
        \<not> violated dec channels trk ErrorRateLimit \<and> \<not> violated dec channels trk LockScore
        \<and> \<not> violated dec channels trk BlankBitRate"
    by (metis threshold.exhaust)
  show ?thesis
    unfolding all
    by (cases st)
       (simp add: run_track_def assms Let_def track_reasons_def track_decode_def
          track_sync_def sync_locked_iff MIN_FRAME_LOCK_SCORE_def not_le not_less)
qed

lemma count_track_reasons:
  "count_list (map reason_about (track_reasons dec channels trk)) (t, k)
     = (if t = trk \<and> violated dec channels trk k then 1 else 0)"
  by (cases k) (auto simp: track_reasons_def)

text \<open>
  C8. On a file of 4 (or 2) channels run for both tracks, the verdict is PASS iff on
  both tracks the error rate is at most \<open>MAX_ERROR_RATE = 0.02\<close>, the blank-bit rate
  is at least \<open>MIN_BLANK_BIT_RATE = 0.98\<close> and the lock score is at least 3 (which is
  what \<open>locked\<close> says); and the reasons hold exactly one entry for every track and
  threshold that is violated, naming that track, and none for the others. The rates are
  the float quotients the program computes, their denominators clamped to 1 when nothing
  was decoded.
\<close>

theorem verdict_pass_iff_all_thresholds:
  assumes "length channels = 4 \<or> length channels = 2"
    and "BMCDecoder_init sr BAUD_RATE tol 200 = Inr dec"
  shows "\<exists>st. run_sim channels sr tol BOTH = Inr st
           \<and> (verdict_pass st \<longleftrightarrow>
                (error_rate_of (track_decode dec channels TD) \<le> MAX_ERROR_RATE
                 \<and> blank_ok_rate_of (track_sync dec channels TD) \<ge> MIN_BLANK_BIT_RATE
                 \<and> score (track_sync dec channels TD) \<ge> 3
                 \<and> locked (track_sync dec channels TD))
                \<and> (error_rate_of (track_decode dec channels BD) \<le> MAX_ERROR_RATE
                 \<and> blank_ok_rate_of (track_sync dec channels BD) \<ge> MIN_BLANK_BIT_RATE
                 \<and> score (track_sync dec channels BD) \<ge> 3
                 \<and> locked (track_sync dec channels BD)))
           \<and> (\<forall>t k. count_list (map reason_about (reasons st)) (t, k)
                       = (if violated dec channels t k then 1 else 0))"
proof -
  let ?st = "\<lparr> verdict_pass = (\<forall>k. \<not> violated dec channels TD k)
                               \<and> (\<forall>k. \<not> violated dec channels BD k),
                reasons = track_reasons dec channels TD @ track_reasons dec channels BD \<rparr>"
  have run: "run_sim channels sr tol BOTH = Inr ?st"
    using assms(1) by (simp add: run_sim_def Let_def run_track_eq [OF assms(2)])
  have all: "(\<forall>k. \<not> violated dec channels trk k) \<longleftrightarrow>
        \<not> violated dec channels trk ErrorRateLimit \<and> \<not> violated dec channels trk LockScore
        \<and> \<not> violated dec channels trk BlankBitRate" for trk
    by (metis threshold.exhaust)
  have v: "verdict_pass ?st \<longleftrightarrow>
                (error_rate_of (track_decode dec channels TD) \<le> MAX_ERROR_RATE
                 \<and> blank_ok_rate_of (track_sync dec channels TD) \<ge> MIN_BLANK_BIT_RATE
                 \<and> score (track_sync dec channels TD) \<ge> 3
                 \<and> locked (track_sync dec channels TD))
                \<and> (error_rate_of (track_decode dec channels BD) \<le> MAX_ERROR_RATE
                 \<and> blank_ok_rate_of (track_sync dec channels BD) \<ge> MIN_BLANK_BIT_RATE
                 \<and> score (track_sync dec channels BD) \<ge> 3
                 \<and> locked (track_sync dec channels BD))"
    by (auto simp: all MIN_FRAME_LOCK_SCORE_def track_sync_def sync_locked_iff)
  have c: "count_list (map reason_about (reasons ?st)) (t, k)
             = (if violated dec channels t k then 1 else 0)" for t k
    by (cases t) (simp_all add: count_track_reasons)
  show ?thesis
    using run v c by blast
qed

theorem verdict_pass_iff_all_thresholds_witness:
  "length [[], [], [], [] :: int list] = 4
   \<and> BMCDecoder_init SAMPLE_RATE BAUD_RATE TOLERANCE_FACTOR 200 = Inr decoder_default
   \<and> (\<exists>st. run_sim [[], [], [], []] SAMPLE_RATE TOLERANCE_FACTOR BOTH = Inr st
          \<and> \<not> verdict_pass st
          \<and> count_list (map reason_about (reasons st)) (TD, LockScore) = 1)"
proof -
  have l: "length [[], [], [], [] :: int list] = 4 \<or> length [[], [], [], [] :: int list] = 2"
    by simp
  have d: "track_decode decoder_default [[], [], [], []] TD = ([], [])"
    by (simp add: track_decode_def ch_map_def decode_def run_lengths_def)
  have s: "score (track_sync decoder_default [[], [], [], []] TD) = 0"
    using sync_frames_short [of "[]" TD 500] by (simp add: track_sync_def d)
  from verdict_pass_iff_all_thresholds [OF l decoder_default_init] s show ?thesis
    by (auto simp: decoder_default_init MIN_FRAME_LOCK_SCORE_def)
qed

section \<open>Properties of the signal data\<close>

lemma emit_bits_eq:
  "emit_bits offset i frame sd
     = sd @ map (\<lambda>(j, v). int j + offset) (filter (\<lambda>(j, v). v \<noteq> 0) (enumerate i frame))"
  by (induction frame arbitrary: i sd) auto

lemma emit_bits_codes: "emit_bits offset 0 frame sd = sd @ set_bit_codes offset frame"
  by (simp add: emit_bits_eq set_bit_codes_def)

lemma signal_loop_eq:
  "signal_loop td bd fps tfs bfs ns sd = sd @ concat (map (code_group td bd fps tfs bfs) ns)"
  by (induction ns arbitrary: sd)
     (simp_all add: Let_def emit_bits_codes code_group_def active_frame_codes_def)

lemma build_signal_data_groups:
  "build_signal_data td bd audio_length_s fps baud tdb bdb
     = concat (map (code_group td bd fps (fdiv (of_nat tdb) (of_nat baud))
                      (fdiv (of_nat bdb) (of_nat baud)))
                 [0..<nat (py_int (fmul audio_length_s (of_nat fps)))])"
  by (simp add: build_signal_data_def Let_def signal_loop_eq)

lemma last_concat_upt:
  assumes "g n \<noteq> []"
  shows "last (concat (map g [0..<Suc n])) = last (g n)"
  using assms by simp

lemma filter_set_zeros:
  "filter (\<lambda>(j, v). v \<noteq> (0 :: int)) (enumerate i (replicate n 0)) = []"
  by (induction n arbitrary: i) simp_all

lemma set_bit_codes_zeros: "set_bit_codes offset (replicate n 0) = []"
  by (simp add: set_bit_codes_def filter_set_zeros)

text \<open>The float computations at output frame 138 of a show of 2.32 seconds.\<close>

lemma dbl_2_32: "dbl (232 / 100) = 5224175567749775 / 2251799813685248"
  by code_simp

lemma frames_2_32: "fmul (5224175567749775 / 2251799813685248) 60
                      = 2448832297382707 / 17592186044416"
  by code_simp

lemma t_138: "fdiv 138 60 = 2589569785738035 / 1125899906842624"
  by code_simp

lemma bd_frame_s_val: "fdiv 96 4800 = 5764607523034235 / 288230376151711744"
  by code_simp

lemma q_138: "fdiv (2589569785738035 / 1125899906842624)
                (5764607523034235 / 288230376151711744)
                = 8092405580431359 / 70368744177664"
  by code_simp

lemma frame_at_138: "frame_at (fdiv 138 60) (fdiv 96 4800) = 114"
proof -
  have "\<lfloor>8092405580431359 / 70368744177664 :: rat\<rfloor> = 114"
    by (simp add: floor_eq_iff)
  then show ?thesis
    unfolding frame_at_def t_138 bd_frame_s_val q_138 by (simp add: py_int_def)
qed

lemma n_frames_2_32: "nat (py_int (fmul (dbl (232 / 100)) 60)) = 139"
proof -
  have "\<lfloor>2448832297382707 / 17592186044416 :: rat\<rfloor> = 139"
    by (simp add: floor_eq_iff)
  then show ?thesis
    unfolding dbl_2_32 frames_2_32 by (simp add: py_int_def)
qed

lemma spec_index_138: "spec_frame_index 96 138 = 115"
  by (simp add: spec_frame_index_def)

text \<open>
  C9, where the code departs from it. The program computes the frame index as
  \<open>int(t / frame_s)\<close> in float arithmetic. At output frame 138, \<open>t = 2.3\<close> seconds is
  the start of BD frame 115, \<open>\<lfloor>2.3 / 0.02\<rfloor> = 115\<close>, but the float quotient is
  \<open>114.99999999999999\<close> and the program reads frame 114. For a show of 2.32 seconds whose
  BD frame 115 is the first with a bit set, the last group is \<open>[0]\<close> where the claim has
  \<open>[0, 151]\<close>.
\<close>

theorem signal_frame_index_off_by_one:
  "frame_at (fdiv 138 60) (fdiv 96 4800) = 114
   \<and> spec_frame_index 96 138 = 115
   \<and> last (build_signal_data [] bd_frames_116 (dbl (232 / 100)) 60 4800 94 96) = 0
   \<and> last (spec_signal_data [] bd_frames_116 (dbl (232 / 100))) = 151
   \<and> build_signal_data [] bd_frames_116 (dbl (232 / 100)) 60 4800 94 96
        \<noteq> spec_signal_data [] bd_frames_116 (dbl (232 / 100))"
proof -
  have n: "nat (py_int (fmul (dbl (232 / 100)) (of_nat 60))) = Suc 138"
    using n_frames_2_32 by simp
  have b114: "bd_frames_116 ! 114 = replicate 96 0"
    by (simp add: bd_frames_116_def nth_append)
  have b115: "bd_frames_116 ! 115 = 1 # replicate 95 0"
    by (simp add: bd_frames_116_def nth_append)
  have len: "length bd_frames_116 = 116"
    by (simp add: bd_frames_116_def)
  have cg: "code_group [] bd_frames_116 60 (fdiv (of_nat 94) (of_nat 4800))
              (fdiv (of_nat 96) (of_nat 4800)) 138 = [0]"
    using frame_at_138
    by (simp add: code_group_def active_frame_codes_def len b114 set_bit_codes_zeros)
  have sg: "spec_group [] bd_frames_116 138 = [0, 151]"
    by (simp add: spec_group_def active_frame_codes_def spec_index_138 len b115
          set_bit_codes_def filter_set_zeros)
  have l1: "last (build_signal_data [] bd_frames_116 (dbl (232 / 100)) 60 4800 94 96) = 0"
    unfolding build_signal_data_groups n
    using last_concat_upt [of "code_group [] bd_frames_116 60 (fdiv (of_nat 94) (of_nat 4800))
              (fdiv (of_nat 96) (of_nat 4800))" 138] cg by simp
  have n': "nat (py_int (fmul (dbl (232 / 100)) 60)) = Suc 138"
    using n_frames_2_32 by simp
  have l2: "last (spec_signal_data [] bd_frames_116 (dbl (232 / 100))) = 151"
    unfolding spec_signal_data_def n'
    using last_concat_upt [of "spec_group [] bd_frames_116" 138] sg by simp
  show ?thesis
    using frame_at_138 spec_index_138 l1 l2 by auto
qed

end
